theory Spec2Isabelle
  imports Main "HOL-Library.Word" "HOL-Library.AList"
begin

section \<open>Values of the host language\<close>

text \<open>
  A \<open>Uint8Array\<close> is a list of 8-bit words; a JavaScript string is a list of 16-bit
  code units.  The arithmetic of the codecs is written on the numeric values of the
  elements (\<open>unat\<close>), the words are the containers.
\<close>

type_synonym byte = "8 word"
type_synonym bytes = "byte list"
type_synonym jsstring = "16 word list"

definition ascii :: "string \<Rightarrow> jsstring" where
  "ascii s = map (\<lambda>c. of_nat (of_char c)) s"

text \<open>
  Every way in which one of the modelled calls can reject.  \<open>InvalidCharacterError\<close>
  is \<open>atob\<close>'s and \<open>btoa\<close>'s, \<open>DataError\<close> and \<open>OperationError\<close> are
  \<open>crypto.subtle\<close>'s, \<open>TypeError\<close> and \<open>RangeError\<close> are the language's,
  \<open>NotFound\<close> is Firestore's for an update of a document that does not exist.  \<open>ChatNotFound\<close>,
  \<open>PrivateKeyNotFound\<close> and \<open>PublicKeyNotFound\<close> are the three
  \<open>throw new Error(...)\<close> of chatKeyManager.js and publicKeyManager.js.
  \<open>AuthenticationError\<close> and \<open>KeyMismatchError\<close> are the names section 7 of the
  specification gives to a rejected AES-GCM and RSA-OAEP decryption.
\<close>

datatype error =
    InvalidCharacterError
  | DataError
  | TypeError
  | ChatNotFound
  | PrivateKeyNotFound
  | PublicKeyNotFound
  | AuthenticationError
  | KeyMismatchError
  | OperationError
  | NotFound
  | RangeError

section \<open>Base64: \<open>btoa(String.fromCharCode(...bytes))\<close> and \<open>Uint8Array.from(atob(s), c => c.charCodeAt(0))\<close>\<close>

text \<open>
  The two idioms the sources use wherever bytes cross into a document.  \<open>b64_char\<close>
  is the character of a six-bit value in the alphabet \<open>A-Z a-z 0-9 + /\<close>,
  \<open>b64_index\<close> its inverse; \<open>sextets\<close> cuts three bytes into four six-bit values,
  the last group filled with zero bits; \<open>padding\<close> is the \<open>=\<close> that fill the text to
  a multiple of four.
\<close>

definition b64_char :: "nat \<Rightarrow> nat" where
  "b64_char n =
     (if n < 26 then 65 + n
      else if n < 52 then 71 + n
      else if n < 62 then n - 4
      else if n = 62 then 43 else 47)"

definition b64_index :: "nat \<Rightarrow> nat option" where
  "b64_index c =
     (if 65 \<le> c \<and> c \<le> 90 then Some (c - 65)
      else if 97 \<le> c \<and> c \<le> 122 then Some (c - 71)
      else if 48 \<le> c \<and> c \<le> 57 then Some (c + 4)
      else if c = 43 then Some 62
      else if c = 47 then Some 63
      else None)"

fun sextets :: "nat list \<Rightarrow> nat list" where
  "sextets (a # b # c # r) =
     [a div 4, (a mod 4) * 16 + b div 16, (b mod 16) * 4 + c div 64, c mod 64] @ sextets r"
| "sextets [a, b] = [a div 4, (a mod 4) * 16 + b div 16, (b mod 16) * 4]"
| "sextets [a] = [a div 4, (a mod 4) * 16]"
| "sextets [] = []"

definition padding :: "nat \<Rightarrow> nat list" where
  "padding n = replicate ((3 - n mod 3) mod 3) 61"

text \<open>\<open>String.fromCharCode(...bytes)\<close>: one code unit per byte.\<close>

definition String_fromCharCode :: "bytes \<Rightarrow> jsstring" where
  "String_fromCharCode bs = map ucast bs"

text \<open>\<open>btoa\<close> rejects a string with a code unit above 255.\<close>

definition btoa :: "jsstring \<Rightarrow> error + jsstring" where
  "btoa s =
     (if \<exists>c \<in> set s. 255 < unat c then Inl InvalidCharacterError
      else Inr (map of_nat (map b64_char (sextets (map unat s)) @ padding (length s))))"

fun unsextets :: "nat list \<Rightarrow> nat list" where
  "unsextets (s0 # s1 # s2 # s3 # r) =
     [s0 * 4 + s1 div 16, (s1 mod 16) * 16 + s2 div 4, (s2 mod 4) * 64 + s3] @ unsextets r"
| "unsextets [s0, s1, s2] = [s0 * 4 + s1 div 16, (s1 mod 16) * 16 + s2 div 4]"
| "unsextets [s0, s1] = [s0 * 4 + s1 div 16]"
| "unsextets [s0] = []"
| "unsextets [] = []"

definition strip_pad :: "nat list \<Rightarrow> nat list" where
  "strip_pad d =
     (case rev d of
        c1 # c2 # r \<Rightarrow> if c1 = 61 \<and> c2 = 61 then rev r else if c1 = 61 then rev (c2 # r) else d
      | [c1] \<Rightarrow> if c1 = 61 then [] else d
      | [] \<Rightarrow> d)"

text \<open>
  \<open>atob\<close> is the forgiving base64 decoder: ASCII whitespace is dropped, one or two
  trailing \<open>=\<close> are dropped when the length is a multiple of four, a length of
  \<open>1 mod 4\<close> or a character outside the alphabet is rejected, and the bits left over
  at the end are discarded.
\<close>

definition atob :: "jsstring \<Rightarrow> error + jsstring" where
  "atob s =
     (let d0 = filter (\<lambda>c. c \<notin> {9, 10, 12, 13, 32}) (map unat s);
          d = (if length d0 mod 4 = 0 then strip_pad d0 else d0)
      in if length d mod 4 = 1 then Inl InvalidCharacterError
         else (case those (map b64_index d) of
                 None \<Rightarrow> Inl InvalidCharacterError
               | Some sx \<Rightarrow> Inr (map of_nat (unsextets sx))))"

text \<open>\<open>Uint8Array.from(str, c => c.charCodeAt(0))\<close>: each code unit, truncated to a byte.\<close>

definition Uint8Array_from :: "jsstring \<Rightarrow> bytes" where
  "Uint8Array_from s = map ucast s"

text \<open>
  \<open>String.fromCharCode(...bytes)\<close> passes every element of the array as one argument
  of one call.  An engine accepts only so many arguments in a call and throws a
  \<open>RangeError\<close> for more; the language fixes no number, so the number the engine
  accepts, \<open>maxArgs\<close>, is a parameter.

  The sources apply the idiom to arrays of two kinds.  An IV
  (\<open>new Uint8Array(12)\<close>) and an RSA-OAEP ciphertext (256 bytes under the 2048-bit
  keys of \<open>generateKeyPair\<close>) have a length the code fixes, within what every
  engine accepts: for them the idiom is \<open>bytesToBase64\<close>.  The AES-GCM ciphertext of
  a message and the bytes of a stored key are as long as the data is: for them the
  idiom is \<open>bytesToBase64_limited\<close>, which throws where the array has more
  elements than the engine accepts arguments.
\<close>

definition bytesToBase64 :: "bytes \<Rightarrow> error + jsstring" where
  "bytesToBase64 bs = btoa (String_fromCharCode bs)"

definition bytesToBase64_limited :: "nat \<Rightarrow> bytes \<Rightarrow> error + jsstring" where
  "bytesToBase64_limited maxArgs bs =
     (if maxArgs < length bs then Inl RangeError else btoa (String_fromCharCode bs))"

definition base64ToBytes :: "jsstring \<Rightarrow> error + bytes" where
  "base64ToBytes s = (case atob s of Inl e \<Rightarrow> Inl e | Inr str \<Rightarrow> Inr (Uint8Array_from str))"

text \<open>
  The text that \<open>btoa(String.fromCharCode(...bs))\<close> evaluates to when the call is
  made (lemmas \<open>bytesToBase64_eq\<close> and \<open>bytesToBase64_limited_eq\<close>).
\<close>

definition b64 :: "bytes \<Rightarrow> jsstring" where
  "b64 bs = map of_nat (map b64_char (sextets (map unat bs)) @ padding (length bs))"

section \<open>keyStorage.js: the local vault\<close>

text \<open>
  The IndexedDB object store \<open>chatKeys\<close> has key path \<open>chatId\<close>: it holds at most one
  record per chat id.  It is modelled as an association list from the chat id to the
  rest of the record; \<open>store.put\<close> replaces the record of an existing id and adds one
  otherwise.  \<open>Date.now()\<close> is passed in as \<open>now\<close>.  A JSON backup object is the
  association list of its own properties, from chat id to base64 text; the order in
  which \<open>Object.entries\<close> lists them plays no part in what is stored.  Failures of
  the store itself (\<open>request.onerror\<close>) are not modelled.
\<close>

record stored_key =
  key :: bytes
  createdAt :: nat

type_synonym vault = "(jsstring \<times> stored_key) list"
type_synonym backup = "(jsstring \<times> jsstring) list"

definition storeKey :: "vault \<Rightarrow> jsstring \<Rightarrow> bytes \<Rightarrow> nat \<Rightarrow> vault" where
  "storeKey v chatId keyBytes now = AList.update chatId \<lparr>key = keyBytes, createdAt = now\<rparr> v"

definition getKey :: "vault \<Rightarrow> jsstring \<Rightarrow> bytes option" where
  "getKey v chatId = (case map_of v chatId of None \<Rightarrow> None | Some item \<Rightarrow> Some (key item))"

definition hasKey :: "vault \<Rightarrow> jsstring \<Rightarrow> bool" where
  "hasKey v chatId = (getKey v chatId \<noteq> None)"

definition deleteKey :: "vault \<Rightarrow> jsstring \<Rightarrow> vault" where
  "deleteKey v chatId = AList.delete chatId v"

definition getAllChatIds :: "vault \<Rightarrow> jsstring list" where
  "getAllChatIds v = map fst v"

text \<open>
  \<open>exported[name] = value\<close> where \<open>exported\<close> was created by \<open>{}\<close> and the value
  is a string.  The assignment makes or replaces an own property, except for the name
  \<open>__proto__\<close>: that is an accessor of \<open>Object.prototype\<close>, whose setter does
  nothing with a value that is neither an object nor \<open>null\<close>, so the object is left
  as it was.
\<close>

definition set_property :: "jsstring \<Rightarrow> jsstring \<Rightarrow> backup \<Rightarrow> backup" where
  "set_property name v exported =
     (if name = ascii ''__proto__'' then exported else AList.update name v exported)"

text \<open>
  \<open>results.forEach(item => exported[item.chatId] = btoa(...))\<close>, starting from
  \<open>{}\<close>, inside the success handler of \<open>store.getAll()\<close>.  A \<open>RangeError\<close>
  of the spread is thrown out of the handler, where nothing catches it: \<open>resolve\<close>
  is not called, so the promise of \<open>exportAllKeys\<close> does not resolve and no backup
  is produced, which is the result \<open>None\<close>.
\<close>

fun exportItems :: "nat \<Rightarrow> vault \<Rightarrow> backup \<Rightarrow> backup option" where
  "exportItems maxArgs [] exported = Some exported"
| "exportItems maxArgs ((chatId, item) # results) exported =
     (case bytesToBase64_limited maxArgs (key item) of
        Inl e \<Rightarrow> None
      | Inr keyBase64 \<Rightarrow> exportItems maxArgs results (set_property chatId keyBase64 exported))"

definition exportAllKeys :: "nat \<Rightarrow> vault \<Rightarrow> backup option" where
  "exportAllKeys maxArgs v = exportItems maxArgs v []"

text \<open>
  \<open>Object.entries(keysObject).forEach(...)\<close>: an entry whose text \<open>atob\<close> rejects
  throws inside the promise executor, so the promise rejects and the puts already
  requested stay.
\<close>

fun importEntries :: "backup \<Rightarrow> vault \<Rightarrow> nat \<Rightarrow> (error + unit) \<times> vault" where
  "importEntries [] v now = (Inr (), v)"
| "importEntries ((chatId, keyBase64) # entries) v now =
     (case base64ToBytes keyBase64 of
        Inl e \<Rightarrow> (Inl e, v)
      | Inr keyBytes \<Rightarrow>
          importEntries entries (AList.update chatId \<lparr>key = keyBytes, createdAt = now\<rparr> v) now)"

definition importKeys :: "backup \<Rightarrow> vault \<Rightarrow> nat \<Rightarrow> (error + unit) \<times> vault" where
  "importKeys keysObject v now =
     (if length keysObject = 0 then (Inr (), v) else importEntries keysObject v now)"

definition clearAllKeys :: "vault \<Rightarrow> vault" where
  "clearAllKeys v = []"

text \<open>The set of (conversation id, raw key bytes) entries of a vault.\<close>

definition key_entries :: "vault \<Rightarrow> (jsstring \<times> bytes) set" where
  "key_entries v = set (map (\<lambda>(chatId, item). (chatId, key item)) v)"

section \<open>\<open>TextEncoder\<close> and \<open>TextDecoder\<close>\<close>

text \<open>
  \<open>new TextEncoder().encode(text)\<close> first reads the string as a sequence of scalar
  values: a high surrogate followed by a low surrogate is one supplementary code point,
  any other surrogate becomes U+FFFD.  Each scalar value is then written in UTF-8.
\<close>

fun scalar_values :: "nat list \<Rightarrow> nat list" where
  "scalar_values [] = []"
| "scalar_values [c] = (if 0xD800 \<le> c \<and> c \<le> 0xDFFF then [0xFFFD] else [c])"
| "scalar_values (c # d # r) =
     (if c < 0xD800 \<or> 0xDFFF < c then c # scalar_values (d # r)
      else if c \<le> 0xDBFF \<and> 0xDC00 \<le> d \<and> d \<le> 0xDFFF
        then (0x10000 + (c - 0xD800) * 0x400 + (d - 0xDC00)) # scalar_values r
      else 0xFFFD # scalar_values (d # r))"

definition utf8_bytes :: "nat \<Rightarrow> nat list" where
  "utf8_bytes cp =
     (if cp < 0x80 then [cp]
      else if cp < 0x800 then [0xC0 + cp div 0x40, 0x80 + cp mod 0x40]
      else if cp < 0x10000 then
        [0xE0 + cp div 0x1000, 0x80 + (cp div 0x40) mod 0x40, 0x80 + cp mod 0x40]
      else
        [0xF0 + cp div 0x40000, 0x80 + (cp div 0x1000) mod 0x40,
         0x80 + (cp div 0x40) mod 0x40, 0x80 + cp mod 0x40])"

text \<open>
  \<open>new TextDecoder().decode(bytes)\<close> is the UTF-8 decoder of the Encoding standard
  with replacement: a lead byte fixes how many continuation bytes follow and the range
  of the first of them; a byte outside its range ends the sequence with one U+FFFD and
  is read again as a lead byte; the input ending inside a sequence gives one U+FFFD.
  \<open>b AND 0x1F\<close> is written \<open>b mod 0x20\<close>, a shift by six bits \<open>* 0x40\<close>.
\<close>

fun utf8_decode :: "nat list \<Rightarrow> nat list" where
  "utf8_decode [] = []"
| "utf8_decode (b0 # bs) =
     (if b0 \<le> 0x7F then b0 # utf8_decode bs
      else if 0xC2 \<le> b0 \<and> b0 \<le> 0xDF then
        (case bs of
           [] \<Rightarrow> [0xFFFD]
         | b1 # r1 \<Rightarrow>
             if 0x80 \<le> b1 \<and> b1 \<le> 0xBF
             then ((b0 mod 0x20) * 0x40 + b1 mod 0x40) # utf8_decode r1
             else 0xFFFD # utf8_decode bs)
      else if 0xE0 \<le> b0 \<and> b0 \<le> 0xEF then
        (case bs of
           [] \<Rightarrow> [0xFFFD]
         | b1 # r1 \<Rightarrow>
             if (if b0 = 0xE0 then 0xA0 else 0x80) \<le> b1 \<and> b1 \<le> (if b0 = 0xED then 0x9F else 0xBF)
             then (case r1 of
                     [] \<Rightarrow> [0xFFFD]
                   | b2 # r2 \<Rightarrow>
                       if 0x80 \<le> b2 \<and> b2 \<le> 0xBF
                       then (((b0 mod 0x10) * 0x40 + b1 mod 0x40) * 0x40 + b2 mod 0x40) # utf8_decode r2
                       else 0xFFFD # utf8_decode r1)
             else 0xFFFD # utf8_decode bs)
      else if 0xF0 \<le> b0 \<and> b0 \<le> 0xF4 then
        (case bs of
           [] \<Rightarrow> [0xFFFD]
         | b1 # r1 \<Rightarrow>
             if (if b0 = 0xF0 then 0x90 else 0x80) \<le> b1 \<and> b1 \<le> (if b0 = 0xF4 then 0x8F else 0xBF)
             then (case r1 of
                     [] \<Rightarrow> [0xFFFD]
                   | b2 # r2 \<Rightarrow>
                       if 0x80 \<le> b2 \<and> b2 \<le> 0xBF
                       then (case r2 of
                               [] \<Rightarrow> [0xFFFD]
                             | b3 # r3 \<Rightarrow>
                                 if 0x80 \<le> b3 \<and> b3 \<le> 0xBF
                                 then ((((b0 mod 8) * 0x40 + b1 mod 0x40) * 0x40 + b2 mod 0x40) * 0x40
                                        + b3 mod 0x40) # utf8_decode r3
                                 else 0xFFFD # utf8_decode r2)
                       else 0xFFFD # utf8_decode r1)
             else 0xFFFD # utf8_decode bs)
      else 0xFFFD # utf8_decode bs)"

text \<open>
  The decoder is created without options, so \<open>ignoreBOM\<close> is false: a leading U+FEFF
  is left out of the result.  The code points are then written as UTF-16 code units.
\<close>

definition strip_bom :: "nat list \<Rightarrow> nat list" where
  "strip_bom cps = (case cps of [] \<Rightarrow> [] | cp # r \<Rightarrow> if cp = 0xFEFF then r else cps)"

definition utf16_units :: "nat \<Rightarrow> nat list" where
  "utf16_units cp =
     (if cp < 0x10000 then [cp]
      else [0xD800 + (cp - 0x10000) div 0x400, 0xDC00 + (cp - 0x10000) mod 0x400])"

definition TextEncoder_encode :: "jsstring \<Rightarrow> bytes" where
  "TextEncoder_encode s = map of_nat (concat (map utf8_bytes (scalar_values (map unat s))))"

definition TextDecoder_decode :: "bytes \<Rightarrow> jsstring" where
  "TextDecoder_decode bs =
     map of_nat (concat (map utf16_units (strip_bom (utf8_decode (map unat bs)))))"

text \<open>
  \<open>String.prototype.isWellFormed\<close>: no surrogate stands alone.  \<open>scalar\<close> is a
  Unicode scalar value.
\<close>

fun isWellFormed :: "nat list \<Rightarrow> bool" where
  "isWellFormed [] = True"
| "isWellFormed [c] = (c < 0xD800 \<or> 0xDFFF < c)"
| "isWellFormed (c # d # r) =
     (if c < 0xD800 \<or> 0xDFFF < c then isWellFormed (d # r)
      else c \<le> 0xDBFF \<and> 0xDC00 \<le> d \<and> d \<le> 0xDFFF \<and> isWellFormed r)"

definition well_formed :: "jsstring \<Rightarrow> bool" where
  "well_formed s = isWellFormed (map unat s)"

definition starts_with_bom :: "jsstring \<Rightarrow> bool" where
  "starts_with_bom s = (case s of [] \<Rightarrow> False | c # r \<Rightarrow> c = 0xFEFF)"

definition scalar :: "nat \<Rightarrow> bool" where
  "scalar cp = (cp < 0x110000 \<and> \<not> (0xD800 \<le> cp \<and> cp \<le> 0xDFFF))"

section \<open>The Web Crypto primitives\<close>

text \<open>
  \<open>crypto.subtle\<close> is the platform's, not the repository's: AES-GCM is a parameter,
  a pair of functions of the raw key, the IV and the data.  Decryption rejects or
  returns the plaintext.  \<open>importKey\<close> accepts raw AES keys of 128, 192 and 256 bits.
\<close>

record aes_gcm =
  gcm_encrypt :: "bytes \<Rightarrow> bytes \<Rightarrow> bytes \<Rightarrow> bytes"
  gcm_decrypt :: "bytes \<Rightarrow> bytes \<Rightarrow> bytes \<Rightarrow> error + bytes"

datatype CryptoKey = AesKey (raw: bytes)

definition importKey :: "bytes \<Rightarrow> error + CryptoKey" where
  "importKey rawKey =
     (if length rawKey = 16 \<or> length rawKey = 24 \<or> length rawKey = 32
      then Inr (AesKey rawKey) else Inl DataError)"

text \<open>What every implementation of AES-GCM does: decryption undoes encryption.\<close>

definition gcm_correct :: "aes_gcm \<Rightarrow> bool" where
  "gcm_correct P = (\<forall>k n d. gcm_decrypt P k n (gcm_encrypt P k n d) = Inr d)"


text \<open>
  RSA-OAEP, also a parameter: encryption takes the public key, the random seed of the
  padding and the data; the two import functions are
  \<open>crypto.subtle.importKey('spki' | 'pkcs8', ...)\<close>.
\<close>

record ('pub, 'priv) rsa_oaep =
  oaep_encrypt :: "'pub \<Rightarrow> bytes \<Rightarrow> bytes \<Rightarrow> error + bytes"
  oaep_decrypt :: "'priv \<Rightarrow> bytes \<Rightarrow> error + bytes"
  import_spki :: "bytes \<Rightarrow> error + 'pub"
  import_pkcs8 :: "bytes \<Rightarrow> error + 'priv"

text \<open>
  Modelled from the spec: RSA-OAEP with a 2048-bit modulus and SHA-256, which is
  \<open>crypto.subtle\<close>'s.  Section 4.2: a payload within the maximum of the padding (190
  bytes) is encrypted, the private key of the pair recovers it, and unwrap fails with
  \<open>KeyMismatchError\<close> if the wrong private key is used.  \<open>pair pub priv\<close> says
  that the two keys were generated together.
\<close>

definition oaep_contract :: "('pub, 'priv) rsa_oaep \<Rightarrow> ('pub \<Rightarrow> 'priv \<Rightarrow> bool) \<Rightarrow> bool" where
  "oaep_contract R pair =
     (\<forall>pub seed d. length d \<le> 190 \<longrightarrow>
        (\<exists>c. oaep_encrypt R pub seed d = Inr c \<and>
             (\<forall>priv. oaep_decrypt R priv c =
                (if pair pub priv then Inr d else Inl KeyMismatchError))))"

text \<open>
  An instance of both contracts for the closed examples: it writes the key (and the
  IV) in front of the data, each byte after a 1 and a 0 at the end.  It hides nothing;
  the examples need only a cipher that meets the contracts.
\<close>

definition frame :: "bytes \<Rightarrow> bytes" where
  "frame xs = concat (map (\<lambda>b. [1, b]) xs) @ [0]"

definition box_aes :: aes_gcm where
  "box_aes =
     \<lparr>gcm_encrypt = (\<lambda>k n d. frame k @ frame n @ d),
      gcm_decrypt = (\<lambda>k n c.
         if take (length (frame k @ frame n)) c = frame k @ frame n
         then Inr (drop (length (frame k @ frame n)) c)
         else Inl AuthenticationError)\<rparr>"

definition box_rsa :: "(bytes, bytes) rsa_oaep" where
  "box_rsa =
     \<lparr>oaep_encrypt = (\<lambda>pub seed d. if length d \<le> 190 then Inr (frame pub @ d) else Inl OperationError),
      oaep_decrypt = (\<lambda>priv c.
         if take (length (frame priv)) c = frame priv
         then Inr (drop (length (frame priv)) c) else Inl KeyMismatchError),
      import_spki = Inr,
      import_pkcs8 = Inr\<rparr>"

section \<open>textEncryption.js and mediaCrypto.js\<close>

text \<open>
  \<open>rnd\<close> is the value of \<open>crypto.getRandomValues(new Uint8Array(12))\<close>.  A \<open>Blob\<close>
  is modelled as its bytes.  \<open>encryptText\<close> spreads the whole ciphertext into one
  call, so it throws a \<open>RangeError\<close> for a ciphertext of more than \<open>maxArgs\<close>
  bytes; \<open>encryptFile\<close> hands the ciphertext on as a \<open>Blob\<close> and spreads only the
  IV.
\<close>

record envelope =
  ciphertext :: jsstring
  iv :: jsstring

definition encryptText ::
  "nat \<Rightarrow> aes_gcm \<Rightarrow> bytes \<Rightarrow> jsstring \<Rightarrow> CryptoKey \<Rightarrow> error + envelope" where
  "encryptText maxArgs P rnd text k =
     (let data = TextEncoder_encode text;
          encrypted = gcm_encrypt P (raw k) rnd data
      in case bytesToBase64_limited maxArgs encrypted of
           Inl e \<Rightarrow> Inl e
         | Inr ct \<Rightarrow>
             (case bytesToBase64 rnd of
                Inl e \<Rightarrow> Inl e
              | Inr ivBase64 \<Rightarrow> Inr \<lparr>ciphertext = ct, iv = ivBase64\<rparr>))"

definition decryptText :: "aes_gcm \<Rightarrow> jsstring \<Rightarrow> jsstring \<Rightarrow> CryptoKey \<Rightarrow> error + jsstring" where
  "decryptText P ct ivBase64 k =
     (case base64ToBytes ivBase64 of
        Inl e \<Rightarrow> Inl e
      | Inr ivb \<Rightarrow>
          (case base64ToBytes ct of
             Inl e \<Rightarrow> Inl e
           | Inr data \<Rightarrow>
               (case gcm_decrypt P (raw k) ivb data of
                  Inl e \<Rightarrow> Inl e
                | Inr decrypted \<Rightarrow> Inr (TextDecoder_decode decrypted))))"

record encrypted_file =
  blob :: bytes
  ivBase64 :: jsstring

definition encryptFile :: "aes_gcm \<Rightarrow> bytes \<Rightarrow> bytes \<Rightarrow> CryptoKey \<Rightarrow> error + encrypted_file" where
  "encryptFile P rnd file k =
     (let encrypted = gcm_encrypt P (raw k) rnd file
      in case bytesToBase64 rnd of
           Inl e \<Rightarrow> Inl e
         | Inr ivb \<Rightarrow> Inr \<lparr>blob = encrypted, ivBase64 = ivb\<rparr>)"

definition decryptFile :: "aes_gcm \<Rightarrow> bytes \<Rightarrow> CryptoKey \<Rightarrow> jsstring \<Rightarrow> error + bytes" where
  "decryptFile P b k ivb =
     (case base64ToBytes ivb of
        Inl e \<Rightarrow> Inl e
      | Inr n \<Rightarrow> gcm_decrypt P (raw k) n b)"

text \<open>Decrypting, with the key \<open>k'\<close>, what encryption under the key \<open>k\<close> returned.\<close>

definition decrypt_encrypted_text ::
  "nat \<Rightarrow> aes_gcm \<Rightarrow> bytes \<Rightarrow> jsstring \<Rightarrow> CryptoKey \<Rightarrow> CryptoKey \<Rightarrow> error + jsstring" where
  "decrypt_encrypted_text maxArgs P rnd text k k' =
     (case encryptText maxArgs P rnd text k of
        Inl e \<Rightarrow> Inl e
      | Inr env \<Rightarrow> decryptText P (ciphertext env) (iv env) k')"

definition decrypt_encrypted_file :: "aes_gcm \<Rightarrow> bytes \<Rightarrow> bytes \<Rightarrow> CryptoKey \<Rightarrow> CryptoKey \<Rightarrow> error + bytes" where
  "decrypt_encrypted_file P rnd file k k' =
     (case encryptFile P rnd file k of
        Inl e \<Rightarrow> Inl e
      | Inr ef \<Rightarrow> decryptFile P (blob ef) k' (ivBase64 ef))"

section \<open>publicKeyManager.js: wrapping a chat key\<close>

definition encryptWithPublicKey ::
  "('pub, 'priv) rsa_oaep \<Rightarrow> bytes \<Rightarrow> bytes \<Rightarrow> 'pub \<Rightarrow> error + jsstring" where
  "encryptWithPublicKey R seed data publicKey =
     (case oaep_encrypt R publicKey seed data of
        Inl e \<Rightarrow> Inl e
      | Inr encrypted \<Rightarrow> bytesToBase64 encrypted)"

definition decryptWithPrivateKey ::
  "('pub, 'priv) rsa_oaep \<Rightarrow> jsstring \<Rightarrow> 'priv \<Rightarrow> error + bytes" where
  "decryptWithPrivateKey R encryptedBase64 privateKey =
     (case base64ToBytes encryptedBase64 of
        Inl e \<Rightarrow> Inl e
      | Inr encrypted \<Rightarrow> oaep_decrypt R privateKey encrypted)"

text \<open>Unwrapping, with a private key, what wrapping under a public key returned.\<close>

definition unwrap_wrapped ::
  "('pub, 'priv) rsa_oaep \<Rightarrow> bytes \<Rightarrow> bytes \<Rightarrow> 'pub \<Rightarrow> 'priv \<Rightarrow> error + bytes" where
  "unwrap_wrapped R seed data publicKey privateKey =
     (case encryptWithPublicKey R seed data publicKey of
        Inl e \<Rightarrow> Inl e
      | Inr wrapped \<Rightarrow> decryptWithPrivateKey R wrapped privateKey)"

section \<open>The documents and the state of one client\<close>

text \<open>
  \<open>toLowerCase\<close> maps the ASCII capitals; the other case mappings of Unicode are not
  modelled, and nothing below depends on which mapping it is.  \<open>truthy\<close> is the
  truth value JavaScript gives to a string field that may be absent: present and not
  empty.
\<close>

definition toLowerCase :: "jsstring \<Rightarrow> jsstring" where
  "toLowerCase s = map (\<lambda>c. if 0x41 \<le> c \<and> c \<le> 0x5A then c + 0x20 else c) s"

definition truthy :: "jsstring option \<Rightarrow> bool" where
  "truthy v = (case v of None \<Rightarrow> False | Some s \<Rightarrow> s \<noteq> [])"

text \<open>
  The fields of a \<open>chats/{chatId}\<close> document that the key manager reads or writes,
  with the types the application writes them with: \<open>keyPackages\<close> is an object from
  lowercased email to base64 text, kept in insertion order.  A user document holds the
  published public key.  The state of one client is the Firestore documents it can see,
  its vault, the private key in \<open>localStorage\<close> and the clock (\<open>Date.now()\<close>).
  Network and storage failures are not modelled: \<open>getDoc\<close> and \<open>updateDoc\<close> reach
  the store, and \<open>updateDoc\<close> rejects only a document that does not exist.
\<close>

record chat_doc =
  participants :: "jsstring list option"
  keyPackages :: "(jsstring \<times> jsstring) list option"
  e2eeEnabled :: bool
  e2eeVersion :: "nat option"
  encryptionKey :: "jsstring option"
  lastKeyUpdate :: "nat option"

record user_doc =
  publicKey :: "jsstring option"

record world =
  chats :: "jsstring \<rightharpoonup> chat_doc"
  users :: "jsstring \<rightharpoonup> user_doc"
  vault :: vault
  userPrivateKey :: "jsstring option"
  clock :: nat

definition updateDoc :: "world \<Rightarrow> jsstring \<Rightarrow> (chat_doc \<Rightarrow> chat_doc) \<Rightarrow> (error + unit) \<times> world" where
  "updateDoc w chatId f =
     (case chats w chatId of
        None \<Rightarrow> (Inl NotFound, w)
      | Some d \<Rightarrow> (Inr (), w\<lparr>chats := (chats w)(chatId \<mapsto> f d)\<rparr>))"

section \<open>publicKeyManager.js: the keys of the users\<close>

definition importPublicKey :: "('pub, 'priv) rsa_oaep \<Rightarrow> jsstring \<Rightarrow> error + 'pub" where
  "importPublicKey R publicKeyBase64 =
     (case base64ToBytes publicKeyBase64 of Inl e \<Rightarrow> Inl e | Inr binaryDer \<Rightarrow> import_spki R binaryDer)"

definition importPrivateKey :: "('pub, 'priv) rsa_oaep \<Rightarrow> jsstring \<Rightarrow> error + 'priv" where
  "importPrivateKey R privateKeyBase64 =
     (case base64ToBytes privateKeyBase64 of Inl e \<Rightarrow> Inl e | Inr binaryDer \<Rightarrow> import_pkcs8 R binaryDer)"

definition getUserPublicKey :: "('pub, 'priv) rsa_oaep \<Rightarrow> world \<Rightarrow> jsstring \<Rightarrow> error + 'pub" where
  "getUserPublicKey R w userEmail =
     (case users w (toLowerCase userEmail) of
        None \<Rightarrow> Inl PublicKeyNotFound
      | Some u \<Rightarrow>
          (case publicKey u of
             None \<Rightarrow> Inl PublicKeyNotFound
           | Some publicKeyBase64 \<Rightarrow>
               if publicKeyBase64 = [] then Inl PublicKeyNotFound
               else importPublicKey R publicKeyBase64))"

definition getMyPrivateKey :: "('pub, 'priv) rsa_oaep \<Rightarrow> world \<Rightarrow> error + 'priv" where
  "getMyPrivateKey R w =
     (case userPrivateKey w of
        None \<Rightarrow> Inl PrivateKeyNotFound
      | Some privateKeyBase64 \<Rightarrow>
          if privateKeyBase64 = [] then Inl PrivateKeyNotFound
          else importPrivateKey R privateKeyBase64)"

section \<open>chatKeyManager.js\<close>

text \<open>
  The body of the loop of \<open>shareKeyWithParticipants\<close>: the \<open>try\<close> block gives the
  package of one participant, the \<open>catch\<close> gives none.  \<open>seed\<close> is the randomness of
  each RSA-OAEP encryption.
\<close>

definition wrap_for ::
  "('pub, 'priv) rsa_oaep \<Rightarrow> (jsstring \<Rightarrow> bytes) \<Rightarrow> world \<Rightarrow> bytes \<Rightarrow> jsstring \<Rightarrow> jsstring option" where
  "wrap_for R seed w rawKey email =
     (case getUserPublicKey R w email of
        Inl e \<Rightarrow> None
      | Inr pub \<Rightarrow>
          (case encryptWithPublicKey R (seed email) rawKey pub of
             Inl e \<Rightarrow> None
           | Inr encryptedKey \<Rightarrow> Some encryptedKey))"

fun key_packages_for ::
  "('pub, 'priv) rsa_oaep \<Rightarrow> (jsstring \<Rightarrow> bytes) \<Rightarrow> world \<Rightarrow> bytes \<Rightarrow> jsstring list \<Rightarrow>
   (jsstring \<times> jsstring) list \<Rightarrow> (jsstring \<times> jsstring) list" where
  "key_packages_for R seed w rawKey [] pkgs = pkgs"
| "key_packages_for R seed w rawKey (email # rest) pkgs =
     (case wrap_for R seed w rawKey email of
        None \<Rightarrow> key_packages_for R seed w rawKey rest pkgs
      | Some encryptedKey \<Rightarrow>
          key_packages_for R seed w rawKey rest
            (AList.update (toLowerCase email) encryptedKey pkgs))"

text \<open>
  \<open>for (const email of participants)\<close> throws a \<open>TypeError\<close> when the field is
  absent; otherwise the packages replace the field \<open>keyPackages\<close> of the document.
\<close>

definition shareKeyWithParticipants ::
  "('pub, 'priv) rsa_oaep \<Rightarrow> (jsstring \<Rightarrow> bytes) \<Rightarrow> world \<Rightarrow> jsstring \<Rightarrow> bytes \<Rightarrow>
   jsstring list option \<Rightarrow> (error + unit) \<times> world" where
  "shareKeyWithParticipants R seed w chatId rawKey ps =
     (case ps of
        None \<Rightarrow> (Inl TypeError, w)
      | Some emails \<Rightarrow>
          updateDoc w chatId
            (\<lambda>d. d\<lparr>keyPackages := Some (key_packages_for R seed w rawKey emails []),
                   lastKeyUpdate := Some (clock w)\<rparr>))"

text \<open>
  \<open>myEmail && chatData.keyPackages && chatData.keyPackages[myEmail.toLowerCase()]\<close>:
  the package addressed to the caller, when all three are truthy.
\<close>

definition myPackage :: "chat_doc \<Rightarrow> jsstring option \<Rightarrow> jsstring option" where
  "myPackage chatData myEmail =
     (case myEmail of
        None \<Rightarrow> None
      | Some email \<Rightarrow>
          if email = [] then None
          else (case keyPackages chatData of
                  None \<Rightarrow> None
                | Some pk \<Rightarrow>
                    (case map_of pk (toLowerCase email) of
                       None \<Rightarrow> None
                     | Some encryptedPackage \<Rightarrow>
                         if encryptedPackage = [] then None else Some encryptedPackage)))"

text \<open>
  \<open>getChatKey\<close> is modelled as the sequence of its four priorities.  A priority
  either ends the call (\<open>Some\<close> of what the call resolves or rejects with) or falls
  through (\<open>None\<close>); both come with the state it leaves.  \<open>fresh\<close> is the raw key
  that \<open>generateChatKey\<close> exports.

  Priority 1.  The two awaited calls of the \<open>try\<close> block are \<open>unwrap_package\<close>; a
  rejection of either is caught and falls through.  \<open>return importKey(rawKey)\<close> is not
  awaited inside the \<open>try\<close>, so its rejection is the call's.
\<close>

type_synonym outcome = "(error + CryptoKey) option \<times> world"

definition unwrap_package :: "('pub, 'priv) rsa_oaep \<Rightarrow> world \<Rightarrow> jsstring \<Rightarrow> error + bytes" where
  "unwrap_package R w encryptedPackage =
     (case getMyPrivateKey R w of
        Inl e \<Rightarrow> Inl e
      | Inr myPrivateKey \<Rightarrow> decryptWithPrivateKey R encryptedPackage myPrivateKey)"

definition priority1 ::
  "('pub, 'priv) rsa_oaep \<Rightarrow> world \<Rightarrow> jsstring \<Rightarrow> jsstring option \<Rightarrow> chat_doc \<Rightarrow> outcome" where
  "priority1 R w chatId myEmail chatData =
     (case myPackage chatData myEmail of
        None \<Rightarrow> (None, w)
      | Some encryptedPackage \<Rightarrow>
          (case unwrap_package R w encryptedPackage of
             Inl e \<Rightarrow> (None, w)
           | Inr rawKey \<Rightarrow>
               (Some (importKey rawKey),
                w\<lparr>vault := storeKey (vault w) chatId rawKey (clock w)\<rparr>)))"

text \<open>
  Priority 2.  The key of the vault is returned unless the document has a
  \<open>keyPackages\<close> object, an email was given, no package is addressed to it and
  \<open>e2eeEnabled\<close> is not set: then the entry is deleted and the call goes on.
\<close>

definition priority2 :: "world \<Rightarrow> jsstring \<Rightarrow> jsstring option \<Rightarrow> chat_doc \<Rightarrow> outcome" where
  "priority2 w chatId myEmail chatData =
     (case getKey (vault w) chatId of
        None \<Rightarrow> (None, w)
      | Some rawKey \<Rightarrow>
          if keyPackages chatData \<noteq> None \<and> truthy myEmail \<and>
             myPackage chatData myEmail = None \<and> \<not> e2eeEnabled chatData
          then (None, w\<lparr>vault := deleteKey (vault w) chatId\<rparr>)
          else (Some (importKey rawKey), w))"

text \<open>Priority 3: the legacy key of the document.  \<open>atob\<close> may throw.\<close>

definition priority3 :: "world \<Rightarrow> jsstring \<Rightarrow> chat_doc \<Rightarrow> outcome" where
  "priority3 w chatId chatData =
     (if truthy (encryptionKey chatData) then
        (case base64ToBytes (the (encryptionKey chatData)) of
           Inl e \<Rightarrow> (Some (Inl e), w)
         | Inr rawKey \<Rightarrow>
             (Some (importKey rawKey), w\<lparr>vault := storeKey (vault w) chatId rawKey (clock w)\<rparr>))
      else (None, w))"

text \<open>
  Priority 4: a new key.  A rejection of \<open>shareKeyWithParticipants\<close> is caught and
  logged; the marker is written after it.
\<close>

definition priority4 ::
  "('pub, 'priv) rsa_oaep \<Rightarrow> (jsstring \<Rightarrow> bytes) \<Rightarrow> bytes \<Rightarrow> world \<Rightarrow> jsstring \<Rightarrow> chat_doc \<Rightarrow>
   (error + CryptoKey) \<times> world" where
  "priority4 R seed fresh w chatId chatData =
     (let rawKey = fresh;
          w1 = w\<lparr>vault := storeKey (vault w) chatId rawKey (clock w)\<rparr>;
          w2 = snd (shareKeyWithParticipants R seed w1 chatId rawKey (participants chatData))
      in case updateDoc w2 chatId (\<lambda>d. d\<lparr>e2eeEnabled := True, e2eeVersion := Some 1\<rparr>) of
           (Inl e, w3) \<Rightarrow> (Inl e, w3)
         | (Inr u, w3) \<Rightarrow> (importKey rawKey, w3))"

definition later_priorities ::
  "('pub, 'priv) rsa_oaep \<Rightarrow> (jsstring \<Rightarrow> bytes) \<Rightarrow> bytes \<Rightarrow> world \<Rightarrow> jsstring \<Rightarrow> chat_doc \<Rightarrow>
   (error + CryptoKey) \<times> world" where
  "later_priorities R seed fresh w chatId chatData =
     (case priority3 w chatId chatData of
        (Some r, w3) \<Rightarrow> (r, w3)
      | (None, w3) \<Rightarrow> priority4 R seed fresh w3 chatId chatData)"

definition getChatKey ::
  "('pub, 'priv) rsa_oaep \<Rightarrow> (jsstring \<Rightarrow> bytes) \<Rightarrow> bytes \<Rightarrow> world \<Rightarrow> jsstring \<Rightarrow> jsstring option \<Rightarrow>
   (error + CryptoKey) \<times> world" where
  "getChatKey R seed fresh w chatId myEmail =
     (case chats w chatId of
        None \<Rightarrow> (Inl ChatNotFound, w)
      | Some chatData \<Rightarrow>
          (case priority1 R w chatId myEmail chatData of
             (Some r, w1) \<Rightarrow> (r, w1)
           | (None, w1) \<Rightarrow>
               (case priority2 w1 chatId myEmail chatData of
                  (Some r, w2) \<Rightarrow> (r, w2)
                | (None, w2) \<Rightarrow> later_priorities R seed fresh w2 chatId chatData)))"

section \<open>Two users and their chat, for the closed examples\<close>

text \<open>
  \<open>fixture d v priv\<close> is the client of a user whose private key is \<open>priv\<close> and whose
  vault is \<open>v\<close>, seeing the chat document \<open>d\<close>; only alice has published a public
  key, \<open>[48, 1]\<close>.  \<open>exchanged_chat r k\<close> is the chat after the key \<open>k\<close> was wrapped
  for alice's public key and addressed to \<open>r\<close>.  \<open>zero_seed\<close> is a source of padding
  randomness that always gives the empty seed, \<open>key32 b\<close> a 256-bit key of equal bytes.
\<close>

definition alice :: jsstring where
  "alice = ascii ''alice@x.com''"

definition bob :: jsstring where
  "bob = ascii ''bob@x.com''"

definition chat_ab :: jsstring where
  "chat_ab = ascii ''alice__at__x_com__bob__at__x_com''"

definition zero_seed :: "jsstring \<Rightarrow> bytes" where
  "zero_seed email = []"

definition key32 :: "byte \<Rightarrow> bytes" where
  "key32 b = replicate 32 b"

definition new_chat :: chat_doc where
  "new_chat = \<lparr>participants = Some [alice, bob], keyPackages = None, e2eeEnabled = False,
                e2eeVersion = None, encryptionKey = None, lastKeyUpdate = None\<rparr>"

definition fixture :: "chat_doc \<Rightarrow> vault \<Rightarrow> bytes \<Rightarrow> world" where
  "fixture d v priv =
     \<lparr>chats = [chat_ab \<mapsto> d],
      users = [alice \<mapsto> \<lparr>publicKey = Some (b64 [48, 1])\<rparr>],
      vault = v,
      userPrivateKey = Some (b64 priv),
      clock = 1000\<rparr>"

definition exchanged_chat :: "jsstring \<Rightarrow> bytes \<Rightarrow> chat_doc" where
  "exchanged_chat recipient k = new_chat\<lparr>keyPackages := Some [(recipient, b64 (frame [48, 1] @ k))]\<rparr>"

section \<open>chatMessagesService.js: the message subscription\<close>

text \<open>
  A message document is an object from field names to values.  A value is a string,
  a boolean, or any other value, of which the model keeps what the callback can see of
  it: its truth value and the string it converts to.  An absent field is \<open>undefined\<close>.
\<close>

datatype jsval = JStr jsstring | JBool bool | JOther bool jsstring

type_synonym doc_data = "jsstring \<rightharpoonup> jsval"

definition js_truthy :: "jsval option \<Rightarrow> bool" where
  "js_truthy v =
     (case v of
        None \<Rightarrow> False
      | Some (JStr s) \<Rightarrow> s \<noteq> []
      | Some (JBool b) \<Rightarrow> b
      | Some (JOther t s) \<Rightarrow> t)"

definition ToString :: "jsval option \<Rightarrow> jsstring" where
  "ToString v =
     (case v of
        None \<Rightarrow> ascii ''undefined''
      | Some (JStr s) \<Rightarrow> s
      | Some (JBool b) \<Rightarrow> (if b then ascii ''true'' else ascii ''false'')
      | Some (JOther t s) \<Rightarrow> s)"

text \<open>
  The function mapped over \<open>snapshot.docs\<close>.  \<open>{id: docSnap.id, ...data, ...}\<close> is the
  object with the field \<open>id\<close>, overridden by the fields of \<open>data\<close>, overridden by the
  fields written after the spread.  The \<open>try\<close> around \<open>decryptText\<close> catches every
  rejection.
\<close>

definition decryptMessage :: "aes_gcm \<Rightarrow> CryptoKey \<Rightarrow> jsstring \<times> doc_data \<Rightarrow> doc_data" where
  "decryptMessage P chatKey docSnap =
     (let docId = fst docSnap;
          data = snd docSnap;
          spread = [ascii ''id'' \<mapsto> JStr docId] ++ data
      in if js_truthy (data (ascii ''encryptedText'')) \<and> js_truthy (data (ascii ''textIv'')) then
           (case decryptText P (ToString (data (ascii ''encryptedText'')))
                   (ToString (data (ascii ''textIv''))) chatKey of
              Inr decryptedText \<Rightarrow>
                spread(ascii ''text'' \<mapsto> JStr decryptedText, ascii ''encrypted'' \<mapsto> JBool True)
            | Inl decryptError \<Rightarrow>
                spread(ascii ''text'' \<mapsto> JStr (ascii ''[Decryption failed]''),
                       ascii ''decryptionError'' \<mapsto> JBool True))
         else spread(ascii ''encrypted'' \<mapsto> JBool False))"

text \<open>
  The snapshot callback of \<open>subscribeToChatMessages\<close>: what it hands to \<open>onMessages\<close>
  or to \<open>onError\<close>, and the state it leaves.  The key is resolved once, before the
  messages are mapped, inside the outer \<open>try\<close>.
\<close>

datatype callback = OnMessages "doc_data list" | OnError error

definition subscribeToChatMessages ::
  "('pub, 'priv) rsa_oaep \<Rightarrow> aes_gcm \<Rightarrow> (jsstring \<Rightarrow> bytes) \<Rightarrow> bytes \<Rightarrow> world \<Rightarrow> jsstring \<Rightarrow>
   jsstring option \<Rightarrow> (jsstring \<times> doc_data) list \<Rightarrow> callback \<times> world" where
  "subscribeToChatMessages R P seed fresh w chatId userEmail docs =
     (case getChatKey R seed fresh w chatId userEmail of
        (Inl error, w') \<Rightarrow> (OnError error, w')
      | (Inr chatKey, w') \<Rightarrow> (OnMessages (map (decryptMessage P chatKey) docs), w'))"

text \<open>Two stored messages for the closed examples: an encrypted one and a legacy one.\<close>

definition stored_message :: doc_data where
  "stored_message = [ascii ''encryptedText'' \<mapsto> JStr (ascii ''AAAA''),
                     ascii ''textIv'' \<mapsto> JStr (ascii ''AAAA''),
                     ascii ''uid'' \<mapsto> JStr (ascii ''u1'')]"

definition legacy_message :: doc_data where
  "legacy_message = [ascii ''text'' \<mapsto> JStr (ascii ''hi''), ascii ''uid'' \<mapsto> JStr (ascii ''u1'')]"

section \<open>chatKeyManager.js: one resolution for concurrent calls\<close>

text \<open>
  JavaScript runs one task at a time, to completion.  The model has one step for each
  task that touches the map \<open>keyCachePromises\<close>: a call of \<open>getChatKey\<close> up to its
  return (the map is read; when the chat has no entry a new resolution is started and
  stored), the settling of a resolution (its \<open>finally\<close> block schedules the clean-up
  1000 ms later), the clean-up timer (\<open>keyCachePromises.delete(chatId)\<close>, not before it
  is due), and time passing.  A promise is its index in the list of the resolutions ever
  started, with the chat it resolves and, once settled, its result.  What a resolution
  computes is \<open>getChatKey\<close> above, the body of the promise; here its result is a
  parameter of the settling step.  The map is keyed by the chat id alone.
\<close>

record promise =
  chat :: jsstring
  result :: "(error + CryptoKey) option"

record coalescer =
  keyCachePromises :: "jsstring \<rightharpoonup> nat"
  promises :: "promise list"
  timers :: "(nat \<times> jsstring) list"
  clock_ms :: nat

definition initial :: coalescer where
  "initial = \<lparr>keyCachePromises = Map.empty, promises = [], timers = [], clock_ms = 0\<rparr>"

definition getChatKey_call :: "coalescer \<Rightarrow> jsstring \<Rightarrow> nat \<times> coalescer" where
  "getChatKey_call s chatId =
     (case keyCachePromises s chatId of
        Some keyPromise \<Rightarrow> (keyPromise, s)
      | None \<Rightarrow>
          (let keyPromise = length (promises s)
           in (keyPromise,
               s\<lparr>promises := promises s @ [\<lparr>chat = chatId, result = None\<rparr>],
                 keyCachePromises := (keyCachePromises s)(chatId \<mapsto> keyPromise)\<rparr>)))"

definition settle :: "nat \<Rightarrow> error + CryptoKey \<Rightarrow> coalescer \<Rightarrow> coalescer" where
  "settle p r s =
     (if p < length (promises s) \<and> result (promises s ! p) = None
      then s\<lparr>promises := (promises s)[p := (promises s ! p)\<lparr>result := Some r\<rparr>],
             timers := timers s @ [(clock_ms s + 1000, chat (promises s ! p))]\<rparr>
      else s)"

definition fire :: "nat \<times> jsstring \<Rightarrow> coalescer \<Rightarrow> coalescer" where
  "fire t s =
     (if t \<in> set (timers s) \<and> fst t \<le> clock_ms s
      then s\<lparr>timers := remove1 t (timers s),
             keyCachePromises := (keyCachePromises s)(snd t := None)\<rparr>
      else s)"

definition tick :: "nat \<Rightarrow> coalescer \<Rightarrow> coalescer" where
  "tick d s = s\<lparr>clock_ms := clock_ms s + d\<rparr>"

datatype event = Call jsstring | Settle nat "error + CryptoKey" | Fire nat jsstring | Tick nat

fun step :: "event \<Rightarrow> coalescer \<Rightarrow> coalescer" where
  "step (Call chatId) s = snd (getChatKey_call s chatId)"
| "step (Settle p r) s = settle p r s"
| "step (Fire due chatId) s = fire (due, chatId) s"
| "step (Tick d) s = tick d s"

fun run :: "event list \<Rightarrow> coalescer \<Rightarrow> coalescer" where
  "run [] s = s"
| "run (e # es) s = run es (step e s)"

text \<open>
  A resolution for a chat is in flight when it has been started and has not settled.
  \<open>coalesced\<close> is the invariant of the map: a resolution in flight is the entry of its
  chat; an entry is a resolution of that chat; a pending timer belongs to an entry whose
  resolution has settled; and no chat has two timers.
\<close>

definition in_flight :: "coalescer \<Rightarrow> nat \<Rightarrow> jsstring \<Rightarrow> bool" where
  "in_flight s p c = (p < length (promises s) \<and> chat (promises s ! p) = c \<and> result (promises s ! p) = None)"

definition coalesced :: "coalescer \<Rightarrow> bool" where
  "coalesced s =
     ((\<forall>p c. in_flight s p c \<longrightarrow> keyCachePromises s c = Some p) \<and>
      (\<forall>c p. keyCachePromises s c = Some p \<longrightarrow> p < length (promises s) \<and> chat (promises s ! p) = c) \<and>
      (\<forall>t \<in> set (timers s). \<exists>p. keyCachePromises s (snd t) = Some p \<and> result (promises s ! p) \<noteq> None) \<and>
      distinct (map snd (timers s)))"

section \<open>Verification\<close>

subsection \<open>Base64\<close>

lemma b64_index_char: "n < 64 \<Longrightarrow> b64_index (b64_char n) = Some n"
  by (auto simp: b64_index_def b64_char_def)

lemma b64_char_plain: "n < 64 \<Longrightarrow> b64_char n \<notin> {9, 10, 12, 13, 32, 61}"
  by (auto simp: b64_char_def)

lemma b64_char_bound: "n < 64 \<Longrightarrow> b64_char n < 123"
  by (auto simp: b64_char_def)

lemma sextets_bound: "\<forall>x \<in> set bs. x < 256 \<Longrightarrow> \<forall>s \<in> set (sextets bs). s < 64"
  by (induction bs rule: sextets.induct) auto

lemma unsextets_sextets: "\<forall>x \<in> set bs. x < 256 \<Longrightarrow> unsextets (sextets bs) = bs"
  by (induction bs rule: sextets.induct) auto

lemma length_sextets:
  "length (sextets bs) mod 4 = (if length bs mod 3 = 0 then 0 else length bs mod 3 + 1)"
proof (induction bs rule: sextets.induct)
  case (1 a b c r)
  have "length (sextets (a # b # c # r)) = length (sextets r) + 4" by simp
  then have l: "length (sextets (a # b # c # r)) mod 4 = length (sextets r) mod 4" by simp
  have "length (a # b # c # r) = length r + 3" by simp
  then have r: "length (a # b # c # r) mod 3 = length r mod 3" by simp
  show ?case unfolding l r using 1 by simp
qed simp_all

lemma length_encoded:
  "(length (sextets bs) + length (padding (length bs))) mod 4 = 0"
proof -
  have aux2: "x mod 4 = 2 \<Longrightarrow> (x + 2) mod 4 = 0" for x :: nat by presburger
  have aux3: "x mod 4 = 3 \<Longrightarrow> (x + 1) mod 4 = 0" for x :: nat by presburger
  consider "length bs mod 3 = 0" | "length bs mod 3 = 1" | "length bs mod 3 = 2" by linarith
  then show ?thesis
  proof cases
    case 1
    then have "length (sextets bs) mod 4 = 0" "length (padding (length bs)) = 0"
      using length_sextets[of bs] by (simp_all add: padding_def)
    then show ?thesis by simp
  next
    case 2
    then have "length (sextets bs) mod 4 = 2" "length (padding (length bs)) = 2"
      using length_sextets[of bs] by (simp_all add: padding_def)
    then show ?thesis using aux2 by simp
  next
    case 3
    then have "length (sextets bs) mod 4 = 3" "length (padding (length bs)) = 1"
      using length_sextets[of bs] by (simp_all add: padding_def)
    then show ?thesis using aux3 by simp
  qed
qed

lemma length_sextets_not1: "length (sextets bs) mod 4 \<noteq> 1"
  using length_sextets[of bs] by (auto split: if_splits)

lemma those_map_Some: "\<forall>x \<in> set xs. f (g x) = Some x \<Longrightarrow> those (map f (map g xs)) = Some xs"
  by (induction xs) auto

lemma strip_pad_body:
  assumes "\<forall>s \<in> set sx. s < 64"
  shows "strip_pad (map b64_char sx @ padding n) = map b64_char sx"
proof -
  have nolast: "xs \<noteq> [] \<Longrightarrow> \<forall>s \<in> set xs. s < 64 \<Longrightarrow> b64_char (last xs) \<noteq> 61" for xs
    using b64_char_plain[of "last xs"] by auto
  consider "padding n = []" | "padding n = [61]" | "padding n = [61, 61]"
    unfolding padding_def
    by (cases "n mod 3 = 0"; cases "n mod 3 = 1"; cases "n mod 3 = 2") (auto simp: numeral_2_eq_2)
  then show ?thesis
  proof cases
    case 1
    show ?thesis
    proof (cases sx rule: rev_cases)
      case Nil
      then show ?thesis using 1 by (simp add: strip_pad_def)
    next
      case (snoc ys y)
      then have "b64_char y \<noteq> 61" using assms b64_char_plain[of y] by auto
      then show ?thesis using 1 snoc by (cases "rev ys") (auto simp: strip_pad_def)
    qed
  next
    case 2
    show ?thesis
    proof (cases sx rule: rev_cases)
      case Nil
      then show ?thesis using 2 by (simp add: strip_pad_def)
    next
      case (snoc ys y)
      then have "b64_char y \<noteq> 61" using assms b64_char_plain[of y] by auto
      then show ?thesis using 2 snoc by (auto simp: strip_pad_def)
    qed
  next
    case 3
    then show ?thesis by (simp add: strip_pad_def)
  qed
qed


lemma unat_ucast_byte: "unat (ucast (b :: 8 word) :: 16 word) = unat b"
  by (simp add: unsigned_ucast_eq take_bit_nat_eq_self less_trans[OF unsigned_less])

lemma unat_byte_bound: "unat (b :: 8 word) < 256"
  using unsigned_less[of b, where 'a=nat] by simp

lemma ucast_ucast_byte: "(ucast (ucast (b :: 8 word) :: 16 word) :: 8 word) = b"
  by (rule ucast_up_ucast_id) (simp add: is_up)

lemma map_unat_of_nat16:
  "\<forall>x \<in> set xs. x < 65536 \<Longrightarrow> map unat (map of_nat xs :: 16 word list) = xs"
  by (induction xs) (auto simp: unat_of_nat)

lemma filter_id: "\<forall>x \<in> set xs. P x \<Longrightarrow> filter P xs = xs"
  by (induction xs) auto

lemma btoa_bytes:
  "btoa (String_fromCharCode bs) =
     Inr (map of_nat (map b64_char (sextets (map unat bs)) @ padding (length bs)))"
proof -
  have "\<not> (\<exists>c \<in> set (String_fromCharCode bs). 255 < unat c)"
    using unat_byte_bound by (auto simp: String_fromCharCode_def unat_ucast_byte not_less less_Suc_eq_le[symmetric])
  moreover have "map unat (String_fromCharCode bs) = map unat bs"
    by (simp add: String_fromCharCode_def unat_ucast_byte)
  moreover have "length (String_fromCharCode bs) = length bs"
    by (simp add: String_fromCharCode_def)
  ultimately show ?thesis unfolding btoa_def by simp
qed

lemma atob_encoded:
  assumes "\<forall>x \<in> set ns. x < 256"
  shows "atob (map of_nat (map b64_char (sextets ns) @ padding (length ns))) = Inr (map of_nat ns)"
proof -
  let ?sx = "sextets ns"
  let ?d = "map b64_char ?sx @ padding (length ns)"
  have sx: "\<forall>s \<in> set ?sx. s < 64" using assms by (rule sextets_bound)
  have small: "\<forall>x \<in> set ?d. x < 65536"
    using sx b64_char_bound by (fastforce simp: padding_def)
  have u: "map unat (map of_nat ?d :: 16 word list) = ?d"
    using small by (rule map_unat_of_nat16)
  have nows: "\<forall>x \<in> set ?d. x \<notin> {9, 10, 12, 13, 32}"
    using sx b64_char_plain by (fastforce simp: padding_def)
  have f: "filter (\<lambda>c. c \<notin> {9, 10, 12, 13, 32}) ?d = ?d"
    using nows by (rule filter_id)
  have len: "length ?d mod 4 = 0" using length_encoded[of ns] by simp
  have sp: "strip_pad ?d = map b64_char ?sx" using sx by (rule strip_pad_body)
  have n1: "length (map b64_char ?sx) mod 4 \<noteq> 1" using length_sextets_not1[of ns] by simp
  have th: "those (map b64_index (map b64_char ?sx)) = Some ?sx"
    using sx by (intro those_map_Some) (simp add: b64_index_char)
  have un: "unsextets ?sx = ns" using assms by (rule unsextets_sextets)
  show ?thesis
    unfolding atob_def u f Let_def using len sp n1 th un by simp
qed

lemma base64ToBytes_bytesToBase64:
  "\<exists>e. bytesToBase64 bs = Inr e \<and> base64ToBytes e = Inr bs"
proof -
  let ?e = "map of_nat (map b64_char (sextets (map unat bs)) @ padding (length bs)) :: jsstring"
  have "atob ?e = Inr (map of_nat (map unat bs))"
    using atob_encoded[of "map unat bs"] unat_byte_bound by simp
  moreover have "Uint8Array_from (map of_nat (map unat bs)) = bs"
    by (simp add: Uint8Array_from_def ucast_ucast_byte map_idI)
  ultimately show ?thesis
    by (simp add: bytesToBase64_def base64ToBytes_def btoa_bytes)
qed

lemma bytesToBase64_eq: "bytesToBase64 bs = Inr (b64 bs)"
  by (simp add: bytesToBase64_def btoa_bytes b64_def)

lemma base64ToBytes_b64: "base64ToBytes (b64 bs) = Inr bs"
  using base64ToBytes_bytesToBase64[of bs] by (simp add: bytesToBase64_eq)

lemma bytesToBase64_limited_eq:
  "length bs \<le> maxArgs \<Longrightarrow> bytesToBase64_limited maxArgs bs = Inr (b64 bs)"
  by (simp add: bytesToBase64_limited_def btoa_bytes b64_def)

lemma bytesToBase64_limited_long:
  "maxArgs < length bs \<Longrightarrow> bytesToBase64_limited maxArgs bs = Inl RangeError"
  by (simp add: bytesToBase64_limited_def)

lemma exportItems_eq:
  "ascii ''__proto__'' \<notin> fst ` set v \<Longrightarrow> \<forall>x \<in> set v. length (key (snd x)) \<le> maxArgs \<Longrightarrow>
   exportItems maxArgs v acc = Some (fold (\<lambda>(c, i). AList.update c (b64 (key i))) v acc)"
  by (induction v arbitrary: acc) (auto simp: bytesToBase64_limited_eq set_property_def)

lemma importEntries_eq:
  "importEntries (map (\<lambda>(c, s). (c, b64 s)) ks) v t =
     (Inr (), fold (\<lambda>(c, s). AList.update c \<lparr>key = s, createdAt = t\<rparr>) ks v)"
  by (induction ks arbitrary: v) (auto simp: base64ToBytes_b64)

lemma map_of_fold_update:
  "distinct (map fst ks) \<Longrightarrow>
   map_of (fold (\<lambda>(c, s). AList.update c (f s)) ks v) = map_of v ++ map_of (map (\<lambda>(c, s). (c, f s)) ks)"
proof (induction ks arbitrary: v)
  case Nil
  then show ?case by simp
next
  case (Cons x ks)
  obtain c s where x: "x = (c, s)" by (cases x)
  let ?M = "map_of (map (\<lambda>(c, s). (c, f s)) ks)"
  have nd: "c \<notin> dom ?M"
    using Cons.prems x by (auto simp: dom_map_of_conv_image_fst image_iff)
  have d: "distinct (map fst ks)" using Cons.prems by simp
  have "map_of (fold (\<lambda>(c, s). AList.update c (f s)) (x # ks) v) =
        map_of (AList.update c (f s) v) ++ ?M"
    using Cons.IH[OF d] x by simp
  also have "\<dots> = (map_of v)(c \<mapsto> f s) ++ ?M" by (simp add: update_conv')
  also have "\<dots> = (map_of v ++ ?M)(c \<mapsto> f s)" using nd by (rule map_add_upd_left)
  also have "\<dots> = map_of v ++ ?M(c \<mapsto> f s)" by simp
  finally have F: "map_of (fold (\<lambda>(c, s). AList.update c (f s)) (x # ks) v) =
      map_of v ++ ?M(c \<mapsto> f s)" .
  have r: "map_of (map (\<lambda>(c, s). (c, f s)) (x # ks)) = ?M(c \<mapsto> f s)"
    unfolding x by simp
  show ?case by (simp only: r F)
qed

lemma distinct_fold_update:
  "distinct (map fst v) \<Longrightarrow> distinct (map fst (fold (\<lambda>(c, s). AList.update c (f s)) ks v))"
  by (induction ks arbitrary: v) (auto simp: distinct_update)

lemma map_of_key_entries:
  "distinct (map fst v) \<Longrightarrow> distinct (map fst w) \<Longrightarrow>
   (\<And>c. map_option key (map_of v c) = map_option key (map_of w c)) \<Longrightarrow> key_entries v = key_entries w"
proof -
  assume dv: "distinct (map fst v)" and dw: "distinct (map fst w)"
    and eq: "\<And>c. map_option key (map_of v c) = map_option key (map_of w c)"
  have mem: "(c, k) \<in> key_entries u \<longleftrightarrow> map_option key (map_of u c) = Some k"
    if "distinct (map fst u)" for u :: vault and c k
    using that by (force simp: key_entries_def image_iff dest: map_of_SomeD)
  show ?thesis
  proof (rule set_eqI)
    fix p :: "jsstring \<times> bytes"
    obtain c k where p: "p = (c, k)" by (cases p)
    show "p \<in> key_entries v \<longleftrightarrow> p \<in> key_entries w"
      unfolding p mem[OF dv] mem[OF dw] eq ..
  qed
qed

subsection \<open>The vault backup\<close>

lemma update_fresh: "c \<notin> fst ` set al \<Longrightarrow> AList.update c x al = al @ [(c, x)]"
  by (induction al) auto

lemma fold_update_fresh:
  "distinct (map fst v) \<Longrightarrow> fst ` set v \<inter> fst ` set acc = {} \<Longrightarrow>
   fold (\<lambda>(c, i). AList.update c (g i)) v acc = acc @ map (\<lambda>(c, i). (c, g i)) v"
proof (induction v arbitrary: acc)
  case Nil
  then show ?case by simp
next
  case (Cons x v)
  obtain c i where x: "x = (c, i)" by (cases x)
  have fresh: "c \<notin> fst ` set acc" using Cons.prems(2) x by auto
  have d: "distinct (map fst v)" using Cons.prems(1) by simp
  have disj: "fst ` set v \<inter> fst ` set (acc @ [(c, g i)]) = {}"
    using Cons.prems x by (auto simp: image_iff)
  show ?case
    using Cons.IH[OF d disj] by (simp add: x update_fresh[OF fresh])
qed

lemma exportAllKeys_eq:
  "distinct (map fst v) \<Longrightarrow> ascii ''__proto__'' \<notin> fst ` set v \<Longrightarrow>
   \<forall>x \<in> set v. length (key (snd x)) \<le> maxArgs \<Longrightarrow>
   exportAllKeys maxArgs v = Some (map (\<lambda>(c, s). (c, b64 s)) (map (\<lambda>(c, i). (c, key i)) v))"
  using fold_update_fresh[of v "[]" "\<lambda>i. b64 (key i)"]
  by (simp add: exportAllKeys_def exportItems_eq split_def comp_def)

lemma importKeys_eq:
  "importKeys (map (\<lambda>(c, s). (c, b64 s)) ks) v t =
     (Inr (), fold (\<lambda>(c, s). AList.update c \<lparr>key = s, createdAt = t\<rparr>) ks v)"
proof (cases ks)
  case Nil
  then show ?thesis by (simp add: importKeys_def)
next
  case (Cons a list)
  then have "length (map (\<lambda>(c, s). (c, b64 s)) ks) \<noteq> 0" by simp
  then show ?thesis unfolding importKeys_def by (simp only: importEntries_eq if_False)
qed

lemma map_of_raw: "map_of (map (\<lambda>(c, i). (c, f i)) v) c = map_option f (map_of v c)"
  by (induction v) auto

text \<open>
  What holds of the backup.  For a vault with one record per chat id (the invariant of
  the object store), none of them named \<open>__proto__\<close>, and no key longer than the
  engine accepts arguments: exporting every key with \<open>exportAllKeys\<close> and importing
  the resulting object with \<open>importKeys\<close> into an empty vault gives a vault with the
  same set of (conversation id, raw key bytes) entries, and importing the same object
  once more succeeds and leaves that set as it is.
\<close>

lemma export_import_plain_names:
  assumes "distinct (map fst v)" "ascii ''__proto__'' \<notin> fst ` set v"
    "\<forall>x \<in> set v. length (key (snd x)) \<le> maxArgs"
  shows "\<exists>m v'. exportAllKeys maxArgs v = Some m \<and> importKeys m [] now = (Inr (), v') \<and>
           key_entries v' = key_entries v \<and>
           (\<exists>v''. importKeys m v' now' = (Inr (), v'') \<and> key_entries v'' = key_entries v')"
proof -
  let ?ks = "map (\<lambda>(c, i). (c, key i)) v"
  let ?m = "map (\<lambda>(c, s). (c, b64 s)) ?ks"
  let ?put = "\<lambda>t. (\<lambda>(c, s). AList.update c \<lparr>key = s, createdAt = t\<rparr>)"
  let ?v1 = "fold (?put now) ?ks []"
  let ?v2 = "fold (?put now') ?ks ?v1"
  have dk: "distinct (map fst ?ks)" using assms(1) by (simp add: split_def comp_def)
  have d1: "distinct (map fst ?v1)" by (rule distinct_fold_update) simp
  have d2: "distinct (map fst ?v2)" using d1 by (rule distinct_fold_update)
  have ks: "map_of ?ks c = map_option key (map_of v c)" for c
    by (rule map_of_raw)
  have puts: "map_of (map (\<lambda>(c, s). (c, \<lparr>key = s, createdAt = t\<rparr>)) ?ks) c =
              map_option (\<lambda>s. \<lparr>key = s, createdAt = t\<rparr>) (map_of ?ks c)" for c t
    by (rule map_of_raw)
  have f1: "map_of ?v1 = map_of [] ++ map_of (map (\<lambda>(c, s). (c, \<lparr>key = s, createdAt = now\<rparr>)) ?ks)"
    using dk by (rule map_of_fold_update)
  have f2: "map_of ?v2 = map_of ?v1 ++ map_of (map (\<lambda>(c, s). (c, \<lparr>key = s, createdAt = now'\<rparr>)) ?ks)"
    using dk by (rule map_of_fold_update)
  have m1: "map_option key (map_of ?v1 c) = map_option key (map_of v c)" for c
    unfolding f1 map_add_def puts ks by (cases "map_of v c") simp_all
  have m2: "map_option key (map_of ?v2 c) = map_option key (map_of ?v1 c)" for c
    unfolding f2 f1 map_add_def puts ks by (cases "map_of v c") simp_all
  have "exportAllKeys maxArgs v = Some ?m" using assms by (rule exportAllKeys_eq)
  moreover have "importKeys ?m [] now = (Inr (), ?v1)" by (rule importKeys_eq)
  moreover have "key_entries ?v1 = key_entries v"
    using d1 assms(1) m1 by (rule map_of_key_entries)
  moreover have "importKeys ?m ?v1 now' = (Inr (), ?v2)" by (rule importKeys_eq)
  moreover have "key_entries ?v2 = key_entries ?v1"
    using d2 d1 m2 by (rule map_of_key_entries)
  ultimately show ?thesis by blast
qed

text \<open>
  And what does not.  A backup never has a property \<open>__proto__\<close>, whatever the vault
  holds; and with a key of more bytes than the engine accepts arguments the export
  produces no backup.
\<close>

lemma exportItems_no_proto:
  "exportItems maxArgs v acc = Some m \<Longrightarrow> ascii ''__proto__'' \<notin> fst ` set acc \<Longrightarrow>
   ascii ''__proto__'' \<notin> fst ` set m"
proof (induction v arbitrary: acc)
  case Nil
  then show ?case by simp
next
  case (Cons x v)
  obtain c i where x: "x = (c, i)" by (cases x)
  from Cons.prems(1) obtain t where t: "bytesToBase64_limited maxArgs (key i) = Inr t"
    and r: "exportItems maxArgs v (set_property c t acc) = Some m"
    by (auto simp: x split: sum.splits)
  have "fst ` set (set_property c t acc) = fst ` set acc \<or>
        (c \<noteq> ascii ''__proto__'' \<and> fst ` set (set_property c t acc) = insert c (fst ` set acc))"
    using dom_update[of c t acc] by (auto simp: set_property_def)
  then have "ascii ''__proto__'' \<notin> fst ` set (set_property c t acc)"
    using Cons.prems(2) by auto
  then show ?case using Cons.IH[OF r] by simp
qed

lemma exportAllKeys_no_proto:
  "exportAllKeys maxArgs v = Some m \<Longrightarrow> ascii ''__proto__'' \<notin> fst ` set m"
  using exportItems_no_proto[of maxArgs v "[]" m] by (simp add: exportAllKeys_def)

lemma exportItems_long_key:
  "\<exists>x \<in> set v. maxArgs < length (key (snd x)) \<Longrightarrow> exportItems maxArgs v acc = None"
proof (induction v arbitrary: acc)
  case Nil
  then show ?case by simp
next
  case (Cons x v)
  obtain c i where x: "x = (c, i)" by (cases x)
  show ?case
  proof (cases "maxArgs < length (key i)")
    case True
    then show ?thesis by (simp add: x bytesToBase64_limited_long)
  next
    case False
    then have "\<exists>y \<in> set v. maxArgs < length (key (snd y))" using Cons.prems x by auto
    then show ?thesis using Cons.IH by (simp add: x split: sum.splits)
  qed
qed

text \<open>
  Claim C9, evaluated where it fails.  Importing a backup file whose JSON text has the
  property \<open>__proto__\<close> (an own property of what \<open>JSON.parse\<close> returns) stores a
  record under that chat id.  \<open>exportAllKeys\<close> (on an engine that accepts 65535
  arguments) then resolves with an object that lacks it: the assignment
  \<open>exported['__proto__'] = keyBase64\<close> makes no property.  Imported into an empty
  vault, that object gives a vault without the key: the set of entries is not
  reproduced.
\<close>

theorem proto_key_lost_in_export:
  "importKeys [(ascii ''__proto__'', b64 (key32 7)), (chat_ab, b64 (key32 9))] [] 5 =
     (Inr (), [(ascii ''__proto__'', \<lparr>key = key32 7, createdAt = 5\<rparr>),
               (chat_ab, \<lparr>key = key32 9, createdAt = 5\<rparr>)]) \<and>
   exportAllKeys 65535 [(ascii ''__proto__'', \<lparr>key = key32 7, createdAt = 5\<rparr>),
                        (chat_ab, \<lparr>key = key32 9, createdAt = 5\<rparr>)] =
     Some [(chat_ab, b64 (key32 9))] \<and>
   importKeys [(chat_ab, b64 (key32 9))] [] 9 =
     (Inr (), [(chat_ab, \<lparr>key = key32 9, createdAt = 9\<rparr>)]) \<and>
   key_entries [(ascii ''__proto__'', \<lparr>key = key32 7, createdAt = 5\<rparr>),
                (chat_ab, \<lparr>key = key32 9, createdAt = 5\<rparr>)] =
     {(ascii ''__proto__'', key32 7), (chat_ab, key32 9)} \<and>
   key_entries [(chat_ab, \<lparr>key = key32 9, createdAt = 9\<rparr>)] = {(chat_ab, key32 9)} \<and>
   (ascii ''__proto__'', key32 7) \<noteq> (chat_ab, key32 9)"
proof -
  have n: "chat_ab \<noteq> ascii ''__proto__''" by (simp add: chat_ab_def ascii_def)
  have l: "length (key32 b) \<le> 65535" for b by (simp add: key32_def)
  show ?thesis
    using n
    by (simp add: importKeys_def base64ToBytes_b64 exportAllKeys_def bytesToBase64_limited_eq l
        set_property_def key_entries_def)
qed

subsection \<open>The text codec\<close>

declare utf8_decode.simps(2) [simp del]

lemma utf8_decode_1: "b0 \<le> 0x7F \<Longrightarrow> utf8_decode (b0 # r) = b0 # utf8_decode r"
  by (simp add: utf8_decode.simps(2))

lemma utf8_decode_2:
  "\<lbrakk>0xC2 \<le> b0; b0 \<le> 0xDF; 0x80 \<le> b1; b1 \<le> 0xBF\<rbrakk> \<Longrightarrow>
   utf8_decode (b0 # b1 # r) = ((b0 mod 0x20) * 0x40 + b1 mod 0x40) # utf8_decode r"
  by (simp add: utf8_decode.simps(2))

lemma utf8_decode_3:
  "\<lbrakk>0xE0 \<le> b0; b0 \<le> 0xEF; b0 = 0xE0 \<longrightarrow> 0xA0 \<le> b1; b0 = 0xED \<longrightarrow> b1 \<le> 0x9F;
    0x80 \<le> b1; b1 \<le> 0xBF; 0x80 \<le> b2; b2 \<le> 0xBF\<rbrakk> \<Longrightarrow>
   utf8_decode (b0 # b1 # b2 # r) =
     (((b0 mod 0x10) * 0x40 + b1 mod 0x40) * 0x40 + b2 mod 0x40) # utf8_decode r"
  by (simp add: utf8_decode.simps(2))

lemma utf8_decode_4:
  "\<lbrakk>0xF0 \<le> b0; b0 \<le> 0xF4; b0 = 0xF0 \<longrightarrow> 0x90 \<le> b1; b0 = 0xF4 \<longrightarrow> b1 \<le> 0x8F;
    0x80 \<le> b1; b1 \<le> 0xBF; 0x80 \<le> b2; b2 \<le> 0xBF; 0x80 \<le> b3; b3 \<le> 0xBF\<rbrakk> \<Longrightarrow>
   utf8_decode (b0 # b1 # b2 # b3 # r) =
     ((((b0 mod 8) * 0x40 + b1 mod 0x40) * 0x40 + b2 mod 0x40) * 0x40 + b3 mod 0x40) # utf8_decode r"
  by (simp add: utf8_decode.simps(2))

lemma mod_off: "x < m \<Longrightarrow> (k * m + x) mod m = (x::nat)"
  by simp

lemma div64_div64: "(cp::nat) div 0x1000 = (cp div 0x40) div 0x40"
  by (simp add: div_mult2_eq[symmetric])

lemma div64_div64_div64: "(cp::nat) div 0x40000 = ((cp div 0x40) div 0x40) div 0x40"
  by (simp add: div_mult2_eq[symmetric])

lemma utf8_decode_bytes1:
  assumes "cp < 0x80"
  shows "utf8_decode (utf8_bytes cp @ r) = cp # utf8_decode r"
proof -
  have "utf8_bytes cp = [cp]" using assms by (simp add: utf8_bytes_def)
  moreover have "cp \<le> 0x7F" using assms by simp
  ultimately show ?thesis by (simp add: utf8_decode_1)
qed

lemma utf8_decode_bytes2:
  assumes "0x80 \<le> cp" "cp < 0x800"
  shows "utf8_decode (utf8_bytes cp @ r) = cp # utf8_decode r"
proof -
  define d where "d = cp div 0x40"
  define m where "m = cp mod 0x40"
  have d: "2 \<le> d" "d < 32"
    using assms by (simp_all add: d_def less_mult_imp_div_less less_eq_div_iff_mult_less_eq)
  have m: "m < 64" by (simp add: m_def)
  have cp: "d * 64 + m = cp" by (simp add: d_def m_def)
  have bytes: "utf8_bytes cp = [0xC0 + d, 0x80 + m]"
    using assms by (simp add: utf8_bytes_def d_def m_def)
  have v0: "(0xC0 + d) mod 0x20 = d" using mod_off[of d 32 6] d by simp
  have v1: "(0x80 + m) mod 0x40 = m" using mod_off[of m 64 2] m by simp
  have "utf8_decode ((0xC0 + d) # (0x80 + m) # r) =
        (((0xC0 + d) mod 0x20) * 0x40 + (0x80 + m) mod 0x40) # utf8_decode r"
    using d m by (intro utf8_decode_2) simp_all
  then show ?thesis unfolding bytes v0 v1 using cp by simp
qed

lemma utf8_decode_bytes3:
  assumes "0x800 \<le> cp" "cp < 0x10000" "\<not> (0xD800 \<le> cp \<and> cp \<le> 0xDFFF)"
  shows "utf8_decode (utf8_bytes cp @ r) = cp # utf8_decode r"
proof -
  define x where "x = cp div 0x40"
  define d where "d = x div 0x40"
  define m1 where "m1 = x mod 0x40"
  define m2 where "m2 = cp mod 0x40"
  have x: "32 \<le> x" "x < 1024"
    using assms by (simp_all add: x_def less_mult_imp_div_less less_eq_div_iff_mult_less_eq)
  have d: "d < 16" using x by (simp add: d_def less_mult_imp_div_less)
  have m: "m1 < 64" "m2 < 64" by (simp_all add: m1_def m2_def)
  have xeq: "d * 64 + m1 = x" by (simp add: d_def m1_def)
  have cp: "x * 64 + m2 = cp" by (simp add: x_def m2_def)
  have lo: "d = 0 \<longrightarrow> 32 \<le> m1" using x xeq by auto
  have hi: "d = 13 \<longrightarrow> m1 \<le> 31"
  proof
    assume d13: "d = 13"
    then have "0xD000 \<le> cp" "cp < 0xE000" using xeq cp m by simp_all
    then have "cp < 0xD800" using assms by linarith
    then have "x < 864" by (simp add: x_def less_mult_imp_div_less)
    then show "m1 \<le> 31" using xeq d13 by simp
  qed
  have bytes: "utf8_bytes cp = [0xE0 + d, 0x80 + m1, 0x80 + m2]"
    using assms by (simp add: utf8_bytes_def d_def m1_def m2_def x_def div64_div64)
  have v0: "(0xE0 + d) mod 0x10 = d" using mod_off[of d 16 14] d by simp
  have v1: "(0x80 + m1) mod 0x40 = m1" using mod_off[of m1 64 2] m by simp
  have v2: "(0x80 + m2) mod 0x40 = m2" using mod_off[of m2 64 2] m by simp
  have "utf8_decode ((0xE0 + d) # (0x80 + m1) # (0x80 + m2) # r) =
        ((((0xE0 + d) mod 0x10) * 0x40 + (0x80 + m1) mod 0x40) * 0x40 + (0x80 + m2) mod 0x40)
          # utf8_decode r"
    using d m lo hi by (intro utf8_decode_3) simp_all
  then show ?thesis unfolding bytes v0 v1 v2 using cp xeq by simp
qed

lemma utf8_decode_bytes4:
  assumes "0x10000 \<le> cp" "cp < 0x110000"
  shows "utf8_decode (utf8_bytes cp @ r) = cp # utf8_decode r"
proof -
  define x where "x = cp div 0x40"
  define y where "y = x div 0x40"
  define d where "d = y div 0x40"
  define m1 where "m1 = y mod 0x40"
  define m2 where "m2 = x mod 0x40"
  define m3 where "m3 = cp mod 0x40"
  have x: "1024 \<le> x" "x < 17408"
    using assms by (simp_all add: x_def less_mult_imp_div_less less_eq_div_iff_mult_less_eq)
  have y: "16 \<le> y" "y < 272"
    using x by (simp_all add: y_def less_mult_imp_div_less less_eq_div_iff_mult_less_eq)
  have d: "d < 5" using y by (simp add: d_def less_mult_imp_div_less)
  have m: "m1 < 64" "m2 < 64" "m3 < 64" by (simp_all add: m1_def m2_def m3_def)
  have yeq: "d * 64 + m1 = y" by (simp add: d_def m1_def)
  have xeq: "y * 64 + m2 = x" by (simp add: y_def m2_def)
  have cp: "x * 64 + m3 = cp" by (simp add: x_def m3_def)
  have lo: "d = 0 \<longrightarrow> 16 \<le> m1" using y yeq by auto
  have hi: "d = 4 \<longrightarrow> m1 \<le> 15" using y yeq by auto
  have bytes: "utf8_bytes cp = [0xF0 + d, 0x80 + m1, 0x80 + m2, 0x80 + m3]"
    using assms
    by (simp add: utf8_bytes_def d_def m1_def m2_def m3_def x_def y_def div64_div64 div64_div64_div64)
  have v0: "(0xF0 + d) mod 8 = d" using mod_off[of d 8 30] d by simp
  have v1: "(0x80 + m1) mod 0x40 = m1" using mod_off[of m1 64 2] m by simp
  have v2: "(0x80 + m2) mod 0x40 = m2" using mod_off[of m2 64 2] m by simp
  have v3: "(0x80 + m3) mod 0x40 = m3" using mod_off[of m3 64 2] m by simp
  have "utf8_decode ((0xF0 + d) # (0x80 + m1) # (0x80 + m2) # (0x80 + m3) # r) =
        (((((0xF0 + d) mod 8) * 0x40 + (0x80 + m1) mod 0x40) * 0x40 + (0x80 + m2) mod 0x40) * 0x40
           + (0x80 + m3) mod 0x40) # utf8_decode r"
    using d m lo hi by (intro utf8_decode_4) simp_all
  then show ?thesis unfolding bytes v0 v1 v2 v3 using cp xeq yeq by simp
qed

lemma utf8_decode_bytes:
  "scalar cp \<Longrightarrow> utf8_decode (utf8_bytes cp @ r) = cp # utf8_decode r"
  using utf8_decode_bytes1[of cp r] utf8_decode_bytes2[of cp r] utf8_decode_bytes3[of cp r]
    utf8_decode_bytes4[of cp r]
  unfolding scalar_def by linarith

lemma utf8_bytes_bound:
  assumes "cp < 0x110000"
  shows "\<forall>b \<in> set (utf8_bytes cp). b < 256"
proof -
  have m: "n mod 0x40 < 64" for n :: nat by simp
  have a: "cp < 0x800 \<Longrightarrow> cp div 0x40 < 32" by (simp add: less_mult_imp_div_less)
  have b: "cp < 0x10000 \<Longrightarrow> cp div 0x1000 < 16" by (simp add: less_mult_imp_div_less)
  have c: "cp div 0x40000 < 5" using assms by (simp add: less_mult_imp_div_less)
  show ?thesis
    using a b c m[of cp] m[of "cp div 0x40"] m[of "cp div 0x1000"]
    by (auto simp: utf8_bytes_def)
qed

lemma utf8_decode_concat:
  "\<forall>cp \<in> set cps. scalar cp \<Longrightarrow> utf8_decode (concat (map utf8_bytes cps)) = cps"
  by (induction cps) (simp_all add: utf8_decode_bytes)

lemma utf16_units_pair:
  assumes "0xD800 \<le> c" "c \<le> 0xDBFF" "0xDC00 \<le> d" "d \<le> 0xDFFF"
  shows "utf16_units (0x10000 + (c - 0xD800) * 0x400 + (d - 0xDC00)) = [c, d]"
    and "scalar (0x10000 + (c - 0xD800) * 0x400 + (d - 0xDC00))"
proof -
  define h where "h = c - 0xD800"
  define l where "l = d - 0xDC00"
  have h: "h < 1024" "c = 0xD800 + h" using assms by (simp_all add: h_def)
  have l: "l < 1024" "d = 0xDC00 + l" using assms by (simp_all add: l_def)
  have dv: "(h * 0x400 + l) div 0x400 = h" using l by simp
  have md: "(h * 0x400 + l) mod 0x400 = l" using l by simp
  have big: "\<not> 0x10000 + h * 0x400 + l < 0x10000" by simp
  have "0x10000 + h * 0x400 + l - 0x10000 = h * 0x400 + l" by simp
  then show "utf16_units (0x10000 + (c - 0xD800) * 0x400 + (d - 0xDC00)) = [c, d]"
    unfolding h_def[symmetric] l_def[symmetric] utf16_units_def
    using big dv md h l by simp
  have "h * 0x400 + l < 0x100000" using h l by simp
  then show "scalar (0x10000 + (c - 0xD800) * 0x400 + (d - 0xDC00))"
    unfolding h_def[symmetric] l_def[symmetric] scalar_def by simp
qed

lemma scalar_values_wf:
  "isWellFormed s \<Longrightarrow> \<forall>c \<in> set s. c < 0x10000 \<Longrightarrow>
   (\<forall>cp \<in> set (scalar_values s). scalar cp) \<and>
   concat (map utf16_units (scalar_values s)) = s"
proof (induction s rule: scalar_values.induct)
  case 1
  then show ?case by simp
next
  case (2 c)
  then show ?case by (auto simp: scalar_def utf16_units_def)
next
  case (3 c d r)
  show ?case
  proof (cases "c < 0xD800 \<or> 0xDFFF < c")
    case True
    then have "isWellFormed (d # r)" using 3 by simp
    then have ih: "(\<forall>cp \<in> set (scalar_values (d # r)). scalar cp) \<and>
        concat (map utf16_units (scalar_values (d # r))) = d # r"
      using 3 True by simp
    have "scalar c" "utf16_units c = [c]"
      using True 3(5) by (auto simp: scalar_def utf16_units_def)
    then show ?thesis using True ih by simp
  next
    case False
    then have p: "0xD800 \<le> c" "c \<le> 0xDBFF" "0xDC00 \<le> d" "d \<le> 0xDFFF" "isWellFormed r"
      using 3(4) by simp_all
    then have ih: "(\<forall>cp \<in> set (scalar_values r). scalar cp) \<and>
        concat (map utf16_units (scalar_values r)) = r"
      using 3 False by simp
    show ?thesis
      using False p ih utf16_units_pair[OF p(1-4)] by simp
  qed
qed

lemma map_unat_of_nat8:
  "\<forall>x \<in> set xs. x < 256 \<Longrightarrow> map unat (map of_nat xs :: 8 word list) = xs"
  by (induction xs) (auto simp: unat_of_nat)

lemma unat_unit_bound: "unat (c :: 16 word) < 0x10000"
  using unsigned_less[of c, where 'a=nat] by simp

lemma scalar_bound: "scalar cp \<Longrightarrow> cp < 0x110000"
  by (simp add: scalar_def)

lemma utf8_roundtrip_nat:
  assumes "well_formed s"
  shows "utf8_decode (map unat (TextEncoder_encode s)) = scalar_values (map unat s)"
    and "concat (map utf16_units (scalar_values (map unat s))) = map unat s"
proof -
  have u: "\<forall>c \<in> set (map unat s). c < 0x10000" using unat_unit_bound by auto
  have wf: "(\<forall>cp \<in> set (scalar_values (map unat s)). scalar cp) \<and>
      concat (map utf16_units (scalar_values (map unat s))) = map unat s"
    using assms u unfolding well_formed_def by (rule scalar_values_wf)
  then show "concat (map utf16_units (scalar_values (map unat s))) = map unat s" by simp
  have "\<forall>b \<in> set (concat (map utf8_bytes (scalar_values (map unat s)))). b < 256"
    using wf utf8_bytes_bound scalar_bound by fastforce
  then have "map unat (TextEncoder_encode s) = concat (map utf8_bytes (scalar_values (map unat s)))"
    unfolding TextEncoder_encode_def by (rule map_unat_of_nat8)
  then show "utf8_decode (map unat (TextEncoder_encode s)) = scalar_values (map unat s)"
    using wf by (simp add: utf8_decode_concat)
qed

lemma scalar_values_head:
  "isWellFormed (c # r) \<Longrightarrow> c \<noteq> 0xFEFF \<Longrightarrow> c < 0x10000 \<Longrightarrow>
   \<exists>cp cps. scalar_values (c # r) = cp # cps \<and> cp \<noteq> 0xFEFF"
  by (cases r) (auto split: if_splits)

lemma TextDecoder_TextEncoder:
  assumes "well_formed s" "\<not> starts_with_bom s"
  shows "TextDecoder_decode (TextEncoder_encode s) = s"
proof -
  have nb: "strip_bom (scalar_values (map unat s)) = scalar_values (map unat s)"
  proof (cases s)
    case Nil
    then show ?thesis by (simp add: strip_bom_def)
  next
    case (Cons c r)
    then have "c \<noteq> 0xFEFF" using assms(2) by (simp add: starts_with_bom_def)
    then have "unat c \<noteq> 0xFEFF"
    proof (rule contrapos_nn)
      assume "unat c = 0xFEFF"
      then have "(of_nat (unat c) :: 16 word) = of_nat 0xFEFF" by (rule arg_cong)
      then show "c = 0xFEFF" by simp
    qed
    moreover have "isWellFormed (unat c # map unat r)"
      using assms(1) Cons by (simp add: well_formed_def)
    ultimately obtain cp cps where "scalar_values (unat c # map unat r) = cp # cps" "cp \<noteq> 0xFEFF"
      using scalar_values_head[of "unat c" "map unat r"] unat_unit_bound[of c] by blast
    then show ?thesis using Cons by (simp add: strip_bom_def)
  qed
  have "TextDecoder_decode (TextEncoder_encode s) = map of_nat (map unat s)"
    unfolding TextDecoder_decode_def utf8_roundtrip_nat(1)[OF assms(1)] nb
      utf8_roundtrip_nat(2)[OF assms(1)] ..
  then show ?thesis by (simp add: map_idI)
qed

lemma encryptText_eq:
  "length (gcm_encrypt P (raw k) rnd (TextEncoder_encode text)) \<le> maxArgs \<Longrightarrow>
   encryptText maxArgs P rnd text k =
     Inr \<lparr>ciphertext = b64 (gcm_encrypt P (raw k) rnd (TextEncoder_encode text)), iv = b64 rnd\<rparr>"
  by (simp add: encryptText_def bytesToBase64_eq bytesToBase64_limited_eq)

lemma encryptText_long:
  "maxArgs < length (gcm_encrypt P (raw k) rnd (TextEncoder_encode text)) \<Longrightarrow>
   encryptText maxArgs P rnd text k = Inl RangeError"
  by (simp add: encryptText_def bytesToBase64_limited_long)

lemma decryptText_b64:
  "decryptText P (b64 c) (b64 n) k =
     (case gcm_decrypt P (raw k) n c of Inl e \<Rightarrow> Inl e | Inr d \<Rightarrow> Inr (TextDecoder_decode d))"
  by (simp add: decryptText_def base64ToBytes_b64)

lemma encryptFile_eq:
  "encryptFile P rnd file k = Inr \<lparr>blob = gcm_encrypt P (raw k) rnd file, ivBase64 = b64 rnd\<rparr>"
  by (simp add: encryptFile_def bytesToBase64_eq)

lemma decryptFile_b64: "decryptFile P c k (b64 n) = gcm_decrypt P (raw k) n c"
  by (simp add: decryptFile_def base64ToBytes_b64)

lemma box_aes_correct: "gcm_correct box_aes"
  by (simp add: gcm_correct_def box_aes_def)

lemma length_concat_replicate: "length (concat (replicate n xs)) = n * length xs"
  by (induction n) simp_all

lemma length_frame: "length (frame xs) = 2 * length xs + 1"
  by (induction xs) (simp_all add: frame_def)

lemma length_box_aes:
  "length (gcm_encrypt box_aes k n d) = 2 * length k + 2 * length n + length d + 2"
  by (simp add: box_aes_def length_frame)

text \<open>
  Claim C1, as amended.  Under any correct AES-GCM, decrypting what \<open>encryptText\<close>
  returned, with the same key and the returned IV, gives the text back when the text is
  well formed (no lone surrogate), does not begin with U+FEFF, and its ciphertext has
  no more bytes than the engine accepts arguments in one call; and decrypting what
  \<open>encryptFile\<close> returned gives every byte payload back.
\<close>

theorem text_and_file_roundtrip:
  assumes "gcm_correct P"
  shows "(well_formed text \<and> \<not> starts_with_bom text \<and>
          length (gcm_encrypt P (raw k) rnd (TextEncoder_encode text)) \<le> maxArgs \<longrightarrow>
            decrypt_encrypted_text maxArgs P rnd text k k = Inr text) \<and>
         decrypt_encrypted_file P rnd file k k = Inr file"
  using assms
  by (simp add: decrypt_encrypted_text_def decrypt_encrypted_file_def encryptText_eq
      decryptText_b64 encryptFile_eq decryptFile_b64 gcm_correct_def TextDecoder_TextEncoder)

lemma decrypt_encrypted_text_eq:
  "gcm_correct P \<Longrightarrow> length (gcm_encrypt P (raw k) rnd (TextEncoder_encode text)) \<le> maxArgs \<Longrightarrow>
   decrypt_encrypted_text maxArgs P rnd text k k = Inr (TextDecoder_decode (TextEncoder_encode text))"
  by (simp add: decrypt_encrypted_text_def encryptText_eq decryptText_b64 gcm_correct_def)

lemma decrypt_encrypted_text_long:
  "maxArgs < length (gcm_encrypt P (raw k) rnd (TextEncoder_encode text)) \<Longrightarrow>
   decrypt_encrypted_text maxArgs P rnd text k k' = Inl RangeError"
  by (simp add: decrypt_encrypted_text_def encryptText_long)

lemma encode_bom: "TextEncoder_encode (0xFEFF # ascii ''hi'') = [0xEF, 0xBB, 0xBF, 0x68, 0x69]"
  by (simp add: TextEncoder_encode_def utf8_bytes_def ascii_def)

lemma encode_lone: "TextEncoder_encode [0xD83D] = [0xEF, 0xBF, 0xBD]"
  by (simp add: TextEncoder_encode_def utf8_bytes_def)

lemma encode_hi: "TextEncoder_encode (ascii ''hi'') = [0x68, 0x69]"
  by (simp add: TextEncoder_encode_def utf8_bytes_def ascii_def)

lemma scalar_values_replicate: "scalar_values (replicate n 0x61) = replicate n 0x61"
proof (induction n)
  case 0
  then show ?case by simp
next
  case (Suc n)
  then show ?case by (cases n) simp_all
qed

lemma length_encode_replicate: "length (TextEncoder_encode (replicate n 0x61)) = n"
  by (simp add: TextEncoder_encode_def scalar_values_replicate utf8_bytes_def
      length_concat_replicate)

lemma codec_bom: "TextDecoder_decode (TextEncoder_encode (0xFEFF # ascii ''hi'')) = ascii ''hi''"
  by (simp add: TextDecoder_decode_def TextEncoder_encode_def utf8_bytes_def utf8_decode.simps(2)
      strip_bom_def utf16_units_def ascii_def)

lemma codec_lone: "TextDecoder_decode (TextEncoder_encode [0xD83D]) = [0xFFFD]"
  by (simp add: TextDecoder_decode_def TextEncoder_encode_def utf8_bytes_def utf8_decode.simps(2)
      strip_bom_def utf16_units_def ascii_def)

text \<open>
  Claim C1 as stated fails: a leading U+FEFF is dropped by the decoder, and a lone
  surrogate comes back as U+FFFD.  And on an engine that accepts 65535 arguments, as
  the one of the examples does, a text of 65535 letters \<open>a\<close> is not encrypted at
  all: \<open>encryptText\<close> throws a \<open>RangeError\<close>.
\<close>

theorem text_roundtrip_counterexample:
  "decrypt_encrypted_text 65535 box_aes [1, 2, 3, 4, 5, 6, 7, 8, 9, 10, 11, 12] (0xFEFF # ascii ''hi'')
     (AesKey (replicate 32 7)) (AesKey (replicate 32 7)) = Inr (ascii ''hi'') \<and>
   decrypt_encrypted_text 65535 box_aes [1, 2, 3, 4, 5, 6, 7, 8, 9, 10, 11, 12] [0xD83D]
     (AesKey (replicate 32 7)) (AesKey (replicate 32 7)) = Inr [0xFFFD] \<and>
   encryptText 65535 box_aes [1, 2, 3, 4, 5, 6, 7, 8, 9, 10, 11, 12] (replicate 65535 0x61)
     (AesKey (replicate 32 7)) = Inl RangeError \<and>
   decrypt_encrypted_text 65535 box_aes [1, 2, 3, 4, 5, 6, 7, 8, 9, 10, 11, 12] (replicate 65535 0x61)
     (AesKey (replicate 32 7)) (AesKey (replicate 32 7)) = Inl RangeError"
proof -
  have 3: "65535 < length (gcm_encrypt box_aes (raw (AesKey (replicate 32 7)))
      [1, 2, 3, 4, 5, 6, 7, 8, 9, 10, 11, 12] (TextEncoder_encode (replicate 65535 0x61)))"
    by (simp add: length_box_aes length_encode_replicate)
  have 1: "length (gcm_encrypt box_aes (raw (AesKey (replicate 32 7))) [1, 2, 3, 4, 5, 6, 7, 8, 9, 10, 11, 12]
      (TextEncoder_encode (0xFEFF # ascii ''hi''))) \<le> 65535"
    unfolding encode_bom by (simp add: length_box_aes)
  have 2: "length (gcm_encrypt box_aes (raw (AesKey (replicate 32 7))) [1, 2, 3, 4, 5, 6, 7, 8, 9, 10, 11, 12]
      (TextEncoder_encode [0xD83D])) \<le> 65535"
    unfolding encode_lone by (simp add: length_box_aes)
  show ?thesis
    by (simp only: decrypt_encrypted_text_eq[OF box_aes_correct 1]
        decrypt_encrypted_text_eq[OF box_aes_correct 2] codec_bom codec_lone
        encryptText_long[OF 3] decrypt_encrypted_text_long[OF 3] simp_thms)
qed

theorem text_and_file_roundtrip_witness:
  "decrypt_encrypted_text 65535 box_aes [1, 2, 3, 4, 5, 6, 7, 8, 9, 10, 11, 12] (ascii ''hi'')
     (AesKey (replicate 32 7)) (AesKey (replicate 32 7)) = Inr (ascii ''hi'') \<and>
   decrypt_encrypted_file box_aes [1, 2, 3, 4, 5, 6, 7, 8, 9, 10, 11, 12] [0, 255, 16]
     (AesKey (replicate 32 7)) (AesKey (replicate 32 7)) = Inr [0, 255, 16]"
proof -
  have w: "well_formed (ascii ''hi'')" "\<not> starts_with_bom (ascii ''hi'')"
    by (simp_all add: well_formed_def starts_with_bom_def ascii_def)
  have l: "length (gcm_encrypt box_aes (raw (AesKey (replicate 32 7))) [1, 2, 3, 4, 5, 6, 7, 8, 9, 10, 11, 12]
      (TextEncoder_encode (ascii ''hi''))) \<le> 65535"
    unfolding encode_hi by (simp add: length_box_aes)
  show ?thesis
    using text_and_file_roundtrip[OF box_aes_correct, of "ascii ''hi''" "AesKey (replicate 32 7)"
        "[1, 2, 3, 4, 5, 6, 7, 8, 9, 10, 11, 12]" 65535 "[0, 255, 16]"] w l
    by simp
qed

lemma frame_inject: "frame a @ x = frame b @ y \<Longrightarrow> a = b \<and> x = y"
proof (induction a arbitrary: b)
  case Nil
  then show ?case by (cases b) (simp_all add: frame_def)
next
  case (Cons a0 a)
  then show ?case
  proof (cases b)
    case Nil
    then show ?thesis using Cons.prems by (simp add: frame_def)
  next
    case (Cons b0 b')
    then have "a0 = b0" "frame a @ x = frame b' @ y" using Cons.prems by (simp_all add: frame_def)
    then show ?thesis using Cons.IH[of b'] Cons by simp
  qed
qed

lemma frame_prefix: "take (length (frame a)) (frame b @ y) = frame a \<longleftrightarrow> a = b"
proof
  assume t: "take (length (frame a)) (frame b @ y) = frame a"
  have "frame a @ drop (length (frame a)) (frame b @ y) = frame b @ y"
    by (subst t[symmetric]) (rule append_take_drop_id)
  then show "a = b" using frame_inject by blast
qed simp


lemma box_rsa_contract: "oaep_contract box_rsa (=)"
  unfolding oaep_contract_def
proof (intro allI impI)
  fix pub seed :: bytes and d :: bytes
  assume "length d \<le> 190"
  then have "oaep_encrypt box_rsa pub seed d = Inr (frame pub @ d)" by (simp add: box_rsa_def)
  moreover have "oaep_decrypt box_rsa priv (frame pub @ d) =
      (if pub = priv then Inr d else Inl KeyMismatchError)" for priv
    using frame_prefix[of priv pub d] by (auto simp: box_rsa_def)
  ultimately show "\<exists>c. oaep_encrypt box_rsa pub seed d = Inr c \<and>
      (\<forall>priv. oaep_decrypt box_rsa priv c = (if pub = priv then Inr d else Inl KeyMismatchError))"
    by blast
qed

lemma encryptWithPublicKey_eq:
  "encryptWithPublicKey R seed d pub =
     (case oaep_encrypt R pub seed d of Inl e \<Rightarrow> Inl e | Inr c \<Rightarrow> Inr (b64 c))"
  by (simp add: encryptWithPublicKey_def bytesToBase64_eq split: sum.splits)

lemma decryptWithPrivateKey_b64: "decryptWithPrivateKey R (b64 c) priv = oaep_decrypt R priv c"
  by (simp add: decryptWithPrivateKey_def base64ToBytes_b64)

text \<open>
  Claim C2.  Under the contract of RSA-OAEP, unwrapping a wrapped 256-bit key with the
  private key of the pair returns exactly its bytes, and unwrapping it with a private
  key that does not match rejects with \<open>KeyMismatchError\<close>.
\<close>

theorem wrap_unwrap:
  assumes "oaep_contract R pair" "length S = 32"
  shows "(pair pub priv \<longrightarrow> unwrap_wrapped R seed S pub priv = Inr S) \<and>
         (\<not> pair pub priv2 \<longrightarrow> unwrap_wrapped R seed S pub priv2 = Inl KeyMismatchError)"
proof -
  have "length S \<le> 190" using assms(2) by simp
  then obtain c where c: "oaep_encrypt R pub seed S = Inr c"
    "\<And>p. oaep_decrypt R p c = (if pair pub p then Inr S else Inl KeyMismatchError)"
    using assms(1) unfolding oaep_contract_def by blast
  show ?thesis
    by (simp add: unwrap_wrapped_def encryptWithPublicKey_eq decryptWithPrivateKey_b64 c)
qed

theorem wrap_unwrap_witness:
  "unwrap_wrapped box_rsa [9, 9] (replicate 32 7) [48, 1] [48, 1] = Inr (replicate 32 7) \<and>
   unwrap_wrapped box_rsa [9, 9] (replicate 32 7) [48, 1] [48, 2] = Inl KeyMismatchError"
  using wrap_unwrap[OF box_rsa_contract, of "replicate 32 7" "[48, 1]" "[48, 1]" "[9, 9]" "[48, 2]"]
  by simp



subsection \<open>Resolving the chat key\<close>

lemma wrap_for_users: "users w' = users w \<Longrightarrow> wrap_for R seed w' k p = wrap_for R seed w k p"
  by (simp add: wrap_for_def getUserPublicKey_def)

lemma key_packages_for_users:
  "users w' = users w \<Longrightarrow> key_packages_for R seed w' k ps acc = key_packages_for R seed w k ps acc"
  by (induction ps arbitrary: acc) (simp_all add: wrap_for_users[of w' w] split: option.splits)

lemma set_update_subset: "x \<in> set (AList.update k v al) \<Longrightarrow> x = (k, v) \<or> x \<in> set al"
  by (induction al) (auto split: if_splits)

lemma key_packages_for_inv:
  "distinct (map fst acc) \<Longrightarrow>
   distinct (map fst (key_packages_for R seed w k ps acc)) \<and>
   fst ` set (key_packages_for R seed w k ps acc) =
     fst ` set acc \<union> toLowerCase ` {p \<in> set ps. wrap_for R seed w k p \<noteq> None} \<and>
   (\<forall>x \<in> set (key_packages_for R seed w k ps acc).
      x \<in> set acc \<or> (\<exists>p \<in> set ps. toLowerCase p = fst x \<and> wrap_for R seed w k p = Some (snd x)))"
proof (induction ps arbitrary: acc)
  case Nil
  then show ?case by simp
next
  case (Cons p ps)
  show ?case
  proof (cases "wrap_for R seed w k p")
    case None
    then show ?thesis using Cons.IH[OF Cons.prems] by auto
  next
    case (Some c)
    let ?acc = "AList.update (toLowerCase p) c acc"
    have d: "distinct (map fst ?acc)" using Cons.prems by (rule distinct_update)
    have dom: "fst ` set ?acc = {toLowerCase p} \<union> fst ` set acc" by (rule dom_update)
    have sub: "x \<in> set ?acc \<Longrightarrow> x = (toLowerCase p, c) \<or> x \<in> set acc" for x
      by (rule set_update_subset)
    note ih = Cons.IH[OF d]
    have 1: "distinct (map fst (key_packages_for R seed w k (p # ps) acc))"
      using ih Some by simp
    have 2: "fst ` set (key_packages_for R seed w k (p # ps) acc) =
        fst ` set acc \<union> toLowerCase ` {q \<in> set (p # ps). wrap_for R seed w k q \<noteq> None}"
      using ih Some dom by auto
    have 3: "\<forall>x \<in> set (key_packages_for R seed w k (p # ps) acc).
        x \<in> set acc \<or> (\<exists>q \<in> set (p # ps). toLowerCase q = fst x \<and> wrap_for R seed w k q = Some (snd x))"
    proof
      fix x assume "x \<in> set (key_packages_for R seed w k (p # ps) acc)"
      then have "x \<in> set (key_packages_for R seed w k ps ?acc)" using Some by simp
      then consider "x \<in> set ?acc"
        | "\<exists>q \<in> set ps. toLowerCase q = fst x \<and> wrap_for R seed w k q = Some (snd x)"
        using ih by blast
      then show "x \<in> set acc \<or> (\<exists>q \<in> set (p # ps). toLowerCase q = fst x \<and> wrap_for R seed w k q = Some (snd x))"
      proof cases
        case 1
        then show ?thesis using sub[of x] Some by auto
      next
        case 2
        then show ?thesis by auto
      qed
    qed
    show ?thesis using 1 2 3 by blast
  qed
qed

lemma importKey_256: "length k = 32 \<Longrightarrow> importKey k = Inr (AesKey k)"
  by (simp add: importKey_def)

lemma getKey_storeKey: "getKey (storeKey v c k t) c = Some k"
  by (simp add: getKey_def storeKey_def update_conv')

lemma getKey_deleteKey: "getKey (deleteKey v c) c = None"
  by (simp add: getKey_def deleteKey_def delete_conv')

text \<open>
  Claim C3, as amended.  For a chat document without key packages and without a legacy
  key, and a vault without a key for the chat, \<open>getChatKey\<close> returns the freshly
  generated 256-bit key, stores it in the vault, sets \<open>e2eeEnabled\<close>, and publishes
  exactly one package for the lowercased email of each participant for whom a package
  could be made (the public key fetched, imported and used); every package is the wrap
  of the new key for such a participant.  A participant for whom the \<open>try\<close> block
  fails gets no package.
\<close>

theorem first_call_generates_key:
  assumes "chats w chatId = Some chatData"
    and "keyPackages chatData = None"
    and "\<not> truthy (encryptionKey chatData)"
    and "getKey (vault w) chatId = None"
    and "participants chatData = Some ps"
    and "length fresh = 32"
  shows "\<exists>w' d' pk.
           getChatKey R seed fresh w chatId myEmail = (Inr (AesKey fresh), w') \<and>
           getKey (vault w') chatId = Some fresh \<and>
           chats w' chatId = Some d' \<and> e2eeEnabled d' \<and> keyPackages d' = Some pk \<and>
           distinct (map fst pk) \<and>
           fst ` set pk = toLowerCase ` {p \<in> set ps. wrap_for R seed w fresh p \<noteq> None} \<and>
           (\<forall>x \<in> set pk. \<exists>p \<in> set ps. toLowerCase p = fst x \<and> wrap_for R seed w fresh p = Some (snd x))"
proof -
  let ?w1 = "w\<lparr>vault := storeKey (vault w) chatId fresh (clock w)\<rparr>"
  let ?pk = "key_packages_for R seed w fresh ps []"
  let ?d2 = "chatData\<lparr>keyPackages := Some ?pk, lastKeyUpdate := Some (clock w)\<rparr>"
  let ?w2 = "?w1\<lparr>chats := (chats ?w1)(chatId \<mapsto> ?d2)\<rparr>"
  let ?d3 = "?d2\<lparr>e2eeEnabled := True, e2eeVersion := Some 1\<rparr>"
  let ?w3 = "?w2\<lparr>chats := (chats ?w2)(chatId \<mapsto> ?d3)\<rparr>"
  have p1: "priority1 R w chatId myEmail chatData = (None, w)"
    using assms(2) by (simp add: priority1_def myPackage_def split: option.splits)
  have p2: "priority2 w chatId myEmail chatData = (None, w)"
    using assms(4) by (simp add: priority2_def)
  have p3: "priority3 w chatId chatData = (None, w)"
    using assms(3) by (simp add: priority3_def)
  have kp: "key_packages_for R seed ?w1 fresh ps [] = ?pk"
    by (rule key_packages_for_users) simp
  have share: "shareKeyWithParticipants R seed ?w1 chatId fresh (participants chatData) = (Inr (), ?w2)"
    using assms(1,5) by (simp add: shareKeyWithParticipants_def updateDoc_def kp)
  have p4: "priority4 R seed fresh w chatId chatData = (Inr (AesKey fresh), ?w3)"
    unfolding priority4_def Let_def share
    using assms(6) by (simp add: updateDoc_def importKey_256)
  have g: "getChatKey R seed fresh w chatId myEmail = (Inr (AesKey fresh), ?w3)"
    by (simp add: getChatKey_def later_priorities_def assms(1) p1 p2 p3 p4)
  have inv: "distinct (map fst ?pk) \<and>
      fst ` set ?pk = fst ` set [] \<union> toLowerCase ` {p \<in> set ps. wrap_for R seed w fresh p \<noteq> None} \<and>
      (\<forall>x \<in> set ?pk. x \<in> set [] \<or>
         (\<exists>p \<in> set ps. toLowerCase p = fst x \<and> wrap_for R seed w fresh p = Some (snd x)))"
    using key_packages_for_inv[of "[]" R seed w fresh ps] by simp
  have "getKey (vault ?w3) chatId = Some fresh" by (simp add: getKey_storeKey)
  moreover have "chats ?w3 chatId = Some ?d3" by simp
  moreover have "e2eeEnabled ?d3" "keyPackages ?d3 = Some ?pk" by simp_all
  ultimately show ?thesis using g inv by (intro exI[of _ ?w3] exI[of _ ?d3] exI[of _ ?pk]) simp
qed

lemma b64_nonempty: "b64 (a # r) \<noteq> []"
proof (cases r)
  case Nil
  then show ?thesis by (simp add: b64_def)
next
  case (Cons b r')
  then show ?thesis by (cases r') (simp_all add: b64_def)
qed

lemma p1_none:
  "myPackage chatData myEmail = None \<Longrightarrow> priority1 R w chatId myEmail chatData = (None, w)"
  by (simp add: priority1_def)

lemma p1_fail:
  "myPackage chatData myEmail = Some pkg \<Longrightarrow> unwrap_package R w pkg = Inl e \<Longrightarrow>
   priority1 R w chatId myEmail chatData = (None, w)"
  by (simp add: priority1_def)

lemma later_generate:
  assumes "chats w chatId = Some d" "\<not> truthy (encryptionKey chatData)" "length fresh = 32"
  shows "fst (later_priorities R seed fresh w chatId chatData) = Inr (AesKey fresh)"
proof -
  have p3: "priority3 w chatId chatData = (None, w)" using assms(2) by (simp add: priority3_def)
  let ?w1 = "w\<lparr>vault := storeKey (vault w) chatId fresh (clock w)\<rparr>"
  obtain r w2 where sh: "shareKeyWithParticipants R seed ?w1 chatId fresh (participants chatData) = (r, w2)"
    by (cases "shareKeyWithParticipants R seed ?w1 chatId fresh (participants chatData)")
  have "\<exists>d2. chats w2 chatId = Some d2"
    using sh assms(1)
    by (auto simp: shareKeyWithParticipants_def updateDoc_def split: option.splits)
  then show ?thesis
    using assms(3) sh
    by (auto simp: later_priorities_def p3 priority4_def Let_def updateDoc_def importKey_256)
qed

text \<open>
  Claim C5.  When a package is addressed to the caller and unwrapping it fails, the call
  does not fail: it is the vault's key when the vault holds one, and what priorities 3
  and 4 give otherwise: the legacy key of the document, or else the freshly generated
  key.  In each case a 256-bit key is returned as a usable key.
\<close>

theorem unwrap_failure_falls_through:
  assumes "chats w chatId = Some chatData"
    and "myPackage chatData myEmail = Some pkg"
    and "unwrap_package R w pkg = Inl e"
  shows "getChatKey R seed fresh w chatId myEmail =
           (case getKey (vault w) chatId of
              Some rawKey \<Rightarrow> (importKey rawKey, w)
            | None \<Rightarrow> later_priorities R seed fresh w chatId chatData) \<and>
         (\<forall>rawKey. getKey (vault w) chatId = Some rawKey \<and> length rawKey = 32 \<longrightarrow>
            getChatKey R seed fresh w chatId myEmail = (Inr (AesKey rawKey), w)) \<and>
         (\<forall>legacy rawKey. getKey (vault w) chatId = None \<and> encryptionKey chatData = Some legacy \<and>
            legacy \<noteq> [] \<and> base64ToBytes legacy = Inr rawKey \<and> length rawKey = 32 \<longrightarrow>
            fst (getChatKey R seed fresh w chatId myEmail) = Inr (AesKey rawKey)) \<and>
         (getKey (vault w) chatId = None \<and> \<not> truthy (encryptionKey chatData) \<and> length fresh = 32 \<longrightarrow>
            fst (getChatKey R seed fresh w chatId myEmail) = Inr (AesKey fresh))"
proof -
  have p1: "priority1 R w chatId myEmail chatData = (None, w)"
    using assms(2,3) by (rule p1_fail)
  have p2: "priority2 w chatId myEmail chatData =
      (case getKey (vault w) chatId of Some rawKey \<Rightarrow> (Some (importKey rawKey), w) | None \<Rightarrow> (None, w))"
    using assms(2) by (simp add: priority2_def split: option.splits)
  have g: "getChatKey R seed fresh w chatId myEmail =
           (case getKey (vault w) chatId of
              Some rawKey \<Rightarrow> (importKey rawKey, w)
            | None \<Rightarrow> later_priorities R seed fresh w chatId chatData)"
    by (simp add: getChatKey_def assms(1) p1 p2 split: option.splits)
  have a: "\<forall>rawKey. getKey (vault w) chatId = Some rawKey \<and> length rawKey = 32 \<longrightarrow>
            getChatKey R seed fresh w chatId myEmail = (Inr (AesKey rawKey), w)"
    by (simp add: g importKey_256)
  have b: "\<forall>legacy rawKey. getKey (vault w) chatId = None \<and> encryptionKey chatData = Some legacy \<and>
            legacy \<noteq> [] \<and> base64ToBytes legacy = Inr rawKey \<and> length rawKey = 32 \<longrightarrow>
            fst (getChatKey R seed fresh w chatId myEmail) = Inr (AesKey rawKey)"
    by (simp add: g later_priorities_def priority3_def truthy_def importKey_256)
  have c: "getKey (vault w) chatId = None \<and> \<not> truthy (encryptionKey chatData) \<and> length fresh = 32 \<longrightarrow>
            fst (getChatKey R seed fresh w chatId myEmail) = Inr (AesKey fresh)"
    using later_generate[OF assms(1), of chatData fresh R seed] by (simp add: g)
  show ?thesis using g a b c by blast
qed

text \<open>
  Claim C6, as amended.  When the vault holds a key for the chat, an email is given and
  priority 1 did not end the call (no package is addressed to the caller, or unwrapping
  it failed): if the document has a \<open>keyPackages\<close> object with no entry for the
  lowercased email and \<open>e2eeEnabled\<close> is not set, the vault entry is deleted and the
  call is what the later priorities give in that state; in every other case the call
  returns the import of the vault's key and changes nothing.
\<close>

theorem vault_key_validation:
  assumes "chats w chatId = Some chatData"
    and "getKey (vault w) chatId = Some rawKey"
    and "email \<noteq> []"
    and "\<forall>pkg. myPackage chatData (Some email) = Some pkg \<longrightarrow> (\<exists>e. unwrap_package R w pkg = Inl e)"
  shows "getChatKey R seed fresh w chatId (Some email) =
           (if (\<exists>pk. keyPackages chatData = Some pk \<and> \<not> truthy (map_of pk (toLowerCase email))) \<and>
               \<not> e2eeEnabled chatData
            then later_priorities R seed fresh (w\<lparr>vault := deleteKey (vault w) chatId\<rparr>) chatId chatData
            else (importKey rawKey, w)) \<and>
         getKey (vault (w\<lparr>vault := deleteKey (vault w) chatId\<rparr>)) chatId = None"
proof -
  have p1: "priority1 R w chatId (Some email) chatData = (None, w)"
  proof (cases "myPackage chatData (Some email)")
    case None
    then show ?thesis by (rule p1_none)
  next
    case (Some pkg)
    then obtain e where "unwrap_package R w pkg = Inl e" using assms(4) by blast
    with Some show ?thesis by (rule p1_fail)
  qed
  have mine: "myPackage chatData (Some email) = None \<longleftrightarrow>
      (\<forall>pk. keyPackages chatData = Some pk \<longrightarrow> \<not> truthy (map_of pk (toLowerCase email)))"
    using assms(3) by (auto simp: myPackage_def truthy_def split: option.splits)
  define orph where "orph \<longleftrightarrow>
      (\<exists>pk. keyPackages chatData = Some pk \<and> \<not> truthy (map_of pk (toLowerCase email))) \<and>
      \<not> e2eeEnabled chatData"
  have p2: "priority2 w chatId (Some email) chatData =
      (if orph then (None, w\<lparr>vault := deleteKey (vault w) chatId\<rparr>)
       else (Some (importKey rawKey), w))"
    unfolding orph_def using assms(2,3) mine by (auto simp: priority2_def truthy_def)
  have g: "getChatKey R seed fresh w chatId (Some email) =
      (case priority2 w chatId (Some email) chatData of
         (Some r, w2) \<Rightarrow> (r, w2)
       | (None, w2) \<Rightarrow> later_priorities R seed fresh w2 chatId chatData)"
    by (simp add: getChatKey_def assms(1) p1)
  show ?thesis
    unfolding orph_def[symmetric] g p2 by (cases orph) (simp_all add: getKey_deleteKey)
qed


lemma b64_eq_Nil: "b64 bs = [] \<longleftrightarrow> bs = []"
  using b64_nonempty by (cases bs) (simp_all add: b64_def padding_def)

lemma frame_nonempty: "frame k \<noteq> []"
  by (simp add: frame_def)

lemma box_rsa_simps:
  "oaep_decrypt box_rsa priv (frame pub @ d) = (if pub = priv then Inr d else Inl KeyMismatchError)"
  "oaep_encrypt box_rsa pub seed d = (if length d \<le> 190 then Inr (frame pub @ d) else Inl OperationError)"
  "import_spki box_rsa der = Inr der"
  "import_pkcs8 box_rsa der = Inr der"
  using frame_prefix[of priv pub d] by (auto simp: box_rsa_def)

lemma names_simps:
  "alice \<noteq> []" "bob \<noteq> []" "alice \<noteq> bob" "bob \<noteq> alice"
  "toLowerCase alice = alice" "toLowerCase bob = bob" "length (key32 b) = 32"
  by (simp_all add: alice_def bob_def ascii_def toLowerCase_def key32_def)

lemma wrap_for_fixture:
  assumes "users w = [alice \<mapsto> \<lparr>publicKey = Some (b64 [48, 1])\<rparr>]"
  shows "wrap_for box_rsa seed w (key32 b) alice = Some (b64 (frame [48, 1] @ key32 b))"
    and "wrap_for box_rsa seed w (key32 b) bob = None"
  using assms
  by (simp_all add: wrap_for_def getUserPublicKey_def importPublicKey_def names_simps
      base64ToBytes_b64 b64_eq_Nil encryptWithPublicKey_eq box_rsa_simps)

lemmas eval_simps =
  getChatKey_def priority1_def priority2_def priority3_def priority4_def later_priorities_def
  myPackage_def unwrap_package_def getMyPrivateKey_def importPrivateKey_def
  shareKeyWithParticipants_def updateDoc_def truthy_def importKey_def getKey_def storeKey_def
  deleteKey_def decryptWithPrivateKey_b64 base64ToBytes_b64 b64_eq_Nil frame_nonempty Let_def
  box_rsa_simps names_simps wrap_for_fixture fixture_def new_chat_def exchanged_chat_def

text \<open>
  Claim C3 as stated fails: bob has published no public key, so the chat of alice and
  bob gets one package, alice's, and none for bob.
\<close>

theorem first_call_counterexample:
  "participants new_chat = Some [alice, bob] \<and>
   getChatKey box_rsa zero_seed (key32 7) (fixture new_chat [] [48, 1]) chat_ab (Some alice) =
    (Inr (AesKey (key32 7)),
     \<lparr>chats = [chat_ab \<mapsto> new_chat\<lparr>keyPackages := Some [(alice, b64 (frame [48, 1] @ key32 7))],
                                        lastKeyUpdate := Some 1000, e2eeEnabled := True, e2eeVersion := Some 1\<rparr>],
      users = [alice \<mapsto> \<lparr>publicKey = Some (b64 [48, 1])\<rparr>],
      vault = [(chat_ab, \<lparr>key = key32 7, createdAt = 1000\<rparr>)],
      userPrivateKey = Some (b64 [48, 1]),
      clock = 1000\<rparr>)"
  by (simp add: eval_simps)

theorem first_call_generates_key_witness:
  "\<exists>w' d' pk.
     getChatKey box_rsa zero_seed (key32 7) (fixture new_chat [] [48, 1]) chat_ab (Some alice)
       = (Inr (AesKey (key32 7)), w') \<and>
     getKey (vault w') chat_ab = Some (key32 7) \<and>
     chats w' chat_ab = Some d' \<and> e2eeEnabled d' \<and> keyPackages d' = Some pk \<and>
     distinct (map fst pk) \<and> fst ` set pk = {alice}"
proof -
  let ?w = "fixture new_chat [] [48, 1]"
  have w: "{p \<in> set [alice, bob]. wrap_for box_rsa zero_seed ?w (key32 7) p \<noteq> None} = {alice}"
    by (auto simp: wrap_for_fixture fixture_def)
  have l: "toLowerCase alice = alice" by (simp add: names_simps)
  have h: "chats ?w chat_ab = Some new_chat" "keyPackages new_chat = None"
    "\<not> truthy (encryptionKey new_chat)" "getKey (vault ?w) chat_ab = None"
    "participants new_chat = Some [alice, bob]" "length (key32 7) = 32"
    by (simp_all add: fixture_def new_chat_def names_simps getKey_def truthy_def)
  show ?thesis
    using first_call_generates_key[OF h, of box_rsa zero_seed "Some alice"]
    unfolding w image_insert image_empty l
    by blast
qed

theorem unwrap_failure_falls_through_witness:
  "myPackage (exchanged_chat alice (key32 9)) (Some alice) = Some (b64 (frame [48, 1] @ key32 9)) \<and>
   unwrap_package box_rsa (fixture (exchanged_chat alice (key32 9)) [] [48, 2])
     (b64 (frame [48, 1] @ key32 9)) = Inl KeyMismatchError \<and>
   fst (getChatKey box_rsa zero_seed (key32 7) (fixture (exchanged_chat alice (key32 9)) [] [48, 2])
          chat_ab (Some alice)) = Inr (AesKey (key32 7))"
proof -
  have a: "myPackage (exchanged_chat alice (key32 9)) (Some alice) = Some (b64 (frame [48, 1] @ key32 9))"
    by (simp add: eval_simps)
  have b: "unwrap_package box_rsa (fixture (exchanged_chat alice (key32 9)) [] [48, 2])
     (b64 (frame [48, 1] @ key32 9)) = Inl KeyMismatchError"
    by (simp add: eval_simps)
  have c: "chats (fixture (exchanged_chat alice (key32 9)) [] [48, 2]) chat_ab
      = Some (exchanged_chat alice (key32 9))"
    by (simp add: fixture_def)
  have t: "getKey (vault (fixture (exchanged_chat alice (key32 9)) [] [48, 2])) chat_ab = None \<and>
      \<not> truthy (encryptionKey (exchanged_chat alice (key32 9))) \<and> length (key32 7) = 32"
    by (simp add: fixture_def exchanged_chat_def new_chat_def names_simps getKey_def truthy_def)
  have "fst (getChatKey box_rsa zero_seed (key32 7) (fixture (exchanged_chat alice (key32 9)) [] [48, 2])
          chat_ab (Some alice)) = Inr (AesKey (key32 7))"
    using unwrap_failure_falls_through[OF c a b, of zero_seed "key32 7"] t by blast
  then show ?thesis using a b by simp
qed

text \<open>
  Claim C6 as stated fails: the vault holds one key and a package addressed to the
  caller unwraps to another; the call returns the unwrapped key, not the vault's.
\<close>

theorem vault_key_counterexample:
  "getKey (vault (fixture (exchanged_chat alice (key32 9)) [(chat_ab, \<lparr>key = key32 5, createdAt = 1\<rparr>)] [48, 1]))
     chat_ab = Some (key32 5) \<and>
   fst (getChatKey box_rsa zero_seed (key32 7)
          (fixture (exchanged_chat alice (key32 9)) [(chat_ab, \<lparr>key = key32 5, createdAt = 1\<rparr>)] [48, 1])
          chat_ab (Some alice)) = Inr (AesKey (key32 9)) \<and>
   key32 9 \<noteq> key32 5"
  by (simp add: eval_simps key32_def)

theorem vault_key_validation_witness:
  "getChatKey box_rsa zero_seed (key32 7)
     (fixture (exchanged_chat bob (key32 9)) [(chat_ab, \<lparr>key = key32 5, createdAt = 1\<rparr>)] [48, 1])
     chat_ab (Some alice)
   = later_priorities box_rsa zero_seed (key32 7)
       (fixture (exchanged_chat bob (key32 9)) [] [48, 1]) chat_ab (exchanged_chat bob (key32 9)) \<and>
   getChatKey box_rsa zero_seed (key32 7)
     (fixture (exchanged_chat bob (key32 9)\<lparr>e2eeEnabled := True\<rparr>)
        [(chat_ab, \<lparr>key = key32 5, createdAt = 1\<rparr>)] [48, 1])
     chat_ab (Some alice)
   = (Inr (AesKey (key32 5)),
      fixture (exchanged_chat bob (key32 9)\<lparr>e2eeEnabled := True\<rparr>)
        [(chat_ab, \<lparr>key = key32 5, createdAt = 1\<rparr>)] [48, 1])"
proof -
  let ?v = "[(chat_ab, \<lparr>key = key32 5, createdAt = 1\<rparr>)]"
  let ?d = "exchanged_chat bob (key32 9)"
  have ne: "alice \<noteq> []" "toLowerCase alice \<noteq> bob"
    by (simp_all add: names_simps)
  have no: "myPackage d (Some alice) = None" if "keyPackages d = Some [(bob, x)]" for d x
    using that ne by (simp add: myPackage_def)
  have 1: "getChatKey box_rsa zero_seed (key32 7) (fixture ?d ?v [48, 1]) chat_ab (Some alice)
      = later_priorities box_rsa zero_seed (key32 7) (fixture ?d [] [48, 1]) chat_ab ?d"
    using vault_key_validation[of "fixture ?d ?v [48, 1]" chat_ab ?d "key32 5" alice box_rsa
        zero_seed "key32 7"] ne no[of ?d]
    by (simp add: fixture_def exchanged_chat_def new_chat_def getKey_def deleteKey_def truthy_def)
  have 2: "getChatKey box_rsa zero_seed (key32 7) (fixture (?d\<lparr>e2eeEnabled := True\<rparr>) ?v [48, 1])
        chat_ab (Some alice)
      = (Inr (AesKey (key32 5)), fixture (?d\<lparr>e2eeEnabled := True\<rparr>) ?v [48, 1])"
    using vault_key_validation[of "fixture (?d\<lparr>e2eeEnabled := True\<rparr>) ?v [48, 1]" chat_ab
        "?d\<lparr>e2eeEnabled := True\<rparr>" "key32 5" alice box_rsa zero_seed "key32 7"] ne
      no[of "?d\<lparr>e2eeEnabled := True\<rparr>"]
    by (simp add: fixture_def exchanged_chat_def new_chat_def getKey_def importKey_def names_simps)
  show ?thesis using 1 2 by simp
qed

subsection \<open>The message subscription\<close>

text \<open>
  Claim C8, as amended.  When the chat key resolved, the callback hands to
  \<open>onMessages\<close> one entry per document, each computed from its own document alone,
  and a message whose decryption is rejected (by the cipher or by \<open>atob\<close>) is handed
  over as a placeholder with the text \<open>[Decryption failed]\<close> and the flag
  \<open>decryptionError\<close>: one failing message does not stop the others.  When no key
  could be resolved, that is, when \<open>getChatKey\<close> rejects, the callback hands that
  error to \<open>onError\<close> and nothing to \<open>onMessages\<close>, whatever the documents are.
\<close>

theorem failed_decryption_placeholder:
  "(\<forall>chatKey w'. getChatKey R seed fresh w chatId userEmail = (Inr chatKey, w') \<longrightarrow>
      subscribeToChatMessages R P seed fresh w chatId userEmail docs =
        (OnMessages (map (decryptMessage P chatKey) docs), w') \<and>
      (\<forall>docId data e.
         js_truthy (data (ascii ''encryptedText'')) \<and> js_truthy (data (ascii ''textIv'')) \<and>
         decryptText P (ToString (data (ascii ''encryptedText''))) (ToString (data (ascii ''textIv'')))
           chatKey = Inl e \<longrightarrow>
         decryptMessage P chatKey (docId, data) =
           ([ascii ''id'' \<mapsto> JStr docId] ++ data)
             (ascii ''text'' \<mapsto> JStr (ascii ''[Decryption failed]''),
              ascii ''decryptionError'' \<mapsto> JBool True))) \<and>
   (\<forall>err w'. getChatKey R seed fresh w chatId userEmail = (Inl err, w') \<longrightarrow>
      subscribeToChatMessages R P seed fresh w chatId userEmail docs = (OnError err, w'))"
  by (simp add: subscribeToChatMessages_def decryptMessage_def)

text \<open>
  Claim C10, as amended.  A message document without the field \<open>encryptedText\<close> or
  without the field \<open>textIv\<close> is mapped to itself, with every stored field as it is
  and \<open>encrypted: false\<close>, whatever the cipher and the key are: nothing is decrypted
  and nothing is raised for it.  It is delivered, at its place in the list, in every
  snapshot for which the chat key resolved; when \<open>getChatKey\<close> rejects, the snapshot
  is not delivered, the legacy message with it, and the error goes to \<open>onError\<close>.
\<close>

theorem legacy_message_passthrough:
  assumes "data (ascii ''encryptedText'') = None \<or> data (ascii ''textIv'') = None"
  shows "decryptMessage P chatKey (docId, data) =
           ([ascii ''id'' \<mapsto> JStr docId] ++ data)(ascii ''encrypted'' \<mapsto> JBool False) \<and>
         (\<forall>R seed fresh w chatId userEmail w' before after.
            getChatKey R seed fresh w chatId userEmail = (Inr chatKey, w') \<longrightarrow>
            (\<exists>ms. subscribeToChatMessages R P seed fresh w chatId userEmail
                     (before @ (docId, data) # after) = (OnMessages ms, w') \<and>
                  length ms = length before + 1 + length after \<and>
                  ms ! length before =
                    ([ascii ''id'' \<mapsto> JStr docId] ++ data)(ascii ''encrypted'' \<mapsto> JBool False))) \<and>
         (\<forall>R seed fresh w chatId userEmail w' before after err.
            getChatKey R seed fresh w chatId userEmail = (Inl err, w') \<longrightarrow>
            subscribeToChatMessages R P seed fresh w chatId userEmail
              (before @ (docId, data) # after) = (OnError err, w'))"
proof -
  have m: "decryptMessage P chatKey (docId, data) =
           ([ascii ''id'' \<mapsto> JStr docId] ++ data)(ascii ''encrypted'' \<mapsto> JBool False)"
    using assms by (auto simp: decryptMessage_def js_truthy_def)
  show ?thesis
    by (simp add: m subscribeToChatMessages_def nth_append)
qed

lemma base64_AAAA: "base64ToBytes (ascii ''AAAA'') = Inr [0, 0, 0]"
  by (simp add: base64ToBytes_def atob_def ascii_def strip_pad_def b64_index_def Uint8Array_from_def)

lemma decrypt_AAAA: "decryptText box_aes (ascii ''AAAA'') (ascii ''AAAA'') k = Inl AuthenticationError"
  by (simp add: decryptText_def base64_AAAA box_aes_def frame_def)

lemma stored_message_fields:
  "stored_message (ascii ''encryptedText'') = Some (JStr (ascii ''AAAA''))"
  "stored_message (ascii ''textIv'') = Some (JStr (ascii ''AAAA''))"
  "legacy_message (ascii ''encryptedText'') = None"
  "legacy_message (ascii ''textIv'') = None"
  by (simp_all add: stored_message_def legacy_message_def ascii_def)

lemma getChatKey_no_chat:
  "getChatKey box_rsa zero_seed (key32 7) (fixture new_chat v [48, 1]) (ascii ''nochat'') (Some alice)
     = (Inl ChatNotFound, fixture new_chat v [48, 1])"
  by (simp add: getChatKey_def fixture_def chat_ab_def ascii_def)

text \<open>
  Claim C8 as stated fails where no key is available: when \<open>getChatKey\<close> rejects (here
  the chat document does not exist), the error goes to \<open>onError\<close> and no message, and
  no placeholder, is delivered.
\<close>

theorem missing_key_counterexample:
  "subscribeToChatMessages box_rsa box_aes zero_seed (key32 7) (fixture new_chat [] [48, 1])
     (ascii ''nochat'') (Some alice) [(ascii ''m1'', stored_message)]
   = (OnError ChatNotFound, fixture new_chat [] [48, 1])"
  by (simp add: subscribeToChatMessages_def getChatKey_no_chat)

text \<open>
  Claim C10 as stated fails in the same way: a legacy message of a snapshot for which
  \<open>getChatKey\<close> rejects is not delivered, and an error is raised.
\<close>

theorem legacy_undelivered_counterexample:
  "subscribeToChatMessages box_rsa box_aes zero_seed (key32 7)
     (fixture new_chat [(chat_ab, \<lparr>key = key32 5, createdAt = 1\<rparr>)] [48, 1])
     (ascii ''nochat'') (Some alice) [(ascii ''m2'', legacy_message)]
   = (OnError ChatNotFound, fixture new_chat [(chat_ab, \<lparr>key = key32 5, createdAt = 1\<rparr>)] [48, 1])"
  by (simp add: subscribeToChatMessages_def getChatKey_no_chat)

theorem failed_decryption_placeholder_witness:
  "subscribeToChatMessages box_rsa box_aes zero_seed (key32 7)
     (fixture new_chat [(chat_ab, \<lparr>key = key32 5, createdAt = 1\<rparr>)] [48, 1]) chat_ab (Some alice)
     [(ascii ''m1'', stored_message), (ascii ''m2'', legacy_message)]
   = (OnMessages
        [([ascii ''id'' \<mapsto> JStr (ascii ''m1'')] ++ stored_message)
           (ascii ''text'' \<mapsto> JStr (ascii ''[Decryption failed]''),
            ascii ''decryptionError'' \<mapsto> JBool True),
         ([ascii ''id'' \<mapsto> JStr (ascii ''m2'')] ++ legacy_message)
           (ascii ''encrypted'' \<mapsto> JBool False)],
      fixture new_chat [(chat_ab, \<lparr>key = key32 5, createdAt = 1\<rparr>)] [48, 1]) \<and>
   subscribeToChatMessages box_rsa box_aes zero_seed (key32 7)
     (fixture new_chat [(chat_ab, \<lparr>key = [1, 2, 3], createdAt = 1\<rparr>)] [48, 1]) chat_ab (Some alice)
     [(ascii ''m1'', stored_message), (ascii ''m2'', legacy_message)]
   = (OnError DataError, fixture new_chat [(chat_ab, \<lparr>key = [1, 2, 3], createdAt = 1\<rparr>)] [48, 1])"
proof -
  let ?w = "fixture new_chat [(chat_ab, \<lparr>key = key32 5, createdAt = 1\<rparr>)] [48, 1]"
  let ?u = "fixture new_chat [(chat_ab, \<lparr>key = [1, 2, 3], createdAt = 1\<rparr>)] [48, 1]"
  let ?docs = "[(ascii ''m1'', stored_message), (ascii ''m2'', legacy_message)]"
  have g: "getChatKey box_rsa zero_seed (key32 7) ?w chat_ab (Some alice) = (Inr (AesKey (key32 5)), ?w)"
    by (simp add: eval_simps)
  have b: "getChatKey box_rsa zero_seed (key32 7) ?u chat_ab (Some alice) = (Inl DataError, ?u)"
    by (simp add: eval_simps)
  have t: "js_truthy (stored_message (ascii ''encryptedText''))"
    "js_truthy (stored_message (ascii ''textIv''))"
    by (simp_all add: stored_message_fields js_truthy_def) (simp_all add: ascii_def)
  have d: "decryptText box_aes (ToString (stored_message (ascii ''encryptedText'')))
      (ToString (stored_message (ascii ''textIv''))) (AesKey (key32 5)) = Inl AuthenticationError"
    by (simp add: stored_message_fields ToString_def decrypt_AAAA)
  have l: "decryptMessage box_aes (AesKey (key32 5)) (ascii ''m2'', legacy_message) =
      ([ascii ''id'' \<mapsto> JStr (ascii ''m2'')] ++ legacy_message)(ascii ''encrypted'' \<mapsto> JBool False)"
    by (simp add: decryptMessage_def stored_message_fields js_truthy_def)
  have 1: "subscribeToChatMessages box_rsa box_aes zero_seed (key32 7) ?w chat_ab (Some alice) ?docs =
        (OnMessages (map (decryptMessage box_aes (AesKey (key32 5))) ?docs), ?w) \<and>
      decryptMessage box_aes (AesKey (key32 5)) (ascii ''m1'', stored_message) =
        ([ascii ''id'' \<mapsto> JStr (ascii ''m1'')] ++ stored_message)
          (ascii ''text'' \<mapsto> JStr (ascii ''[Decryption failed]''),
           ascii ''decryptionError'' \<mapsto> JBool True)"
    using failed_decryption_placeholder[of box_rsa zero_seed "key32 7" ?w chat_ab "Some alice"
        box_aes ?docs] g t d
    by blast
  have 2: "subscribeToChatMessages box_rsa box_aes zero_seed (key32 7) ?u chat_ab (Some alice) ?docs =
        (OnError DataError, ?u)"
    using failed_decryption_placeholder[of box_rsa zero_seed "key32 7" ?u chat_ab "Some alice"
        box_aes ?docs] b
    by blast
  show ?thesis using 1 2 l by simp
qed

theorem legacy_message_passthrough_witness:
  "decryptMessage box_aes (AesKey (key32 5)) (ascii ''m2'', legacy_message) =
     ([ascii ''id'' \<mapsto> JStr (ascii ''m2'')] ++ legacy_message)(ascii ''encrypted'' \<mapsto> JBool False) \<and>
   fst (subscribeToChatMessages box_rsa box_aes zero_seed (key32 7)
     (fixture new_chat [(chat_ab, \<lparr>key = key32 5, createdAt = 1\<rparr>)] [48, 1]) chat_ab (Some alice)
     [(ascii ''m2'', legacy_message)])
   = OnMessages [([ascii ''id'' \<mapsto> JStr (ascii ''m2'')] ++ legacy_message)
                   (ascii ''encrypted'' \<mapsto> JBool False)] \<and>
   fst (subscribeToChatMessages box_rsa box_aes zero_seed (key32 7)
     (fixture new_chat [(chat_ab, \<lparr>key = [1, 2, 3], createdAt = 1\<rparr>)] [48, 1]) chat_ab (Some alice)
     [(ascii ''m2'', legacy_message)])
   = OnError DataError"
proof -
  let ?w = "fixture new_chat [(chat_ab, \<lparr>key = key32 5, createdAt = 1\<rparr>)] [48, 1]"
  let ?u = "fixture new_chat [(chat_ab, \<lparr>key = [1, 2, 3], createdAt = 1\<rparr>)] [48, 1]"
  have g: "getChatKey box_rsa zero_seed (key32 7) ?w chat_ab (Some alice) = (Inr (AesKey (key32 5)), ?w)"
    by (simp add: eval_simps)
  have b: "getChatKey box_rsa zero_seed (key32 7) ?u chat_ab (Some alice) = (Inl DataError, ?u)"
    by (simp add: eval_simps)
  have h: "legacy_message (ascii ''encryptedText'') = None \<or> legacy_message (ascii ''textIv'') = None"
    by (simp add: stored_message_fields)
  note r = legacy_message_passthrough[OF h, of box_aes "AesKey (key32 5)" "ascii ''m2''"]
  from r have 1: "decryptMessage box_aes (AesKey (key32 5)) (ascii ''m2'', legacy_message) =
     ([ascii ''id'' \<mapsto> JStr (ascii ''m2'')] ++ legacy_message)(ascii ''encrypted'' \<mapsto> JBool False)"
    by blast
  from r g obtain ms where ms: "subscribeToChatMessages box_rsa box_aes zero_seed (key32 7) ?w chat_ab
      (Some alice) ([] @ (ascii ''m2'', legacy_message) # []) = (OnMessages ms, ?w)"
    "length ms = length ([] :: (jsstring \<times> doc_data) list) + 1 + length ([] :: (jsstring \<times> doc_data) list)"
    "ms ! length ([] :: (jsstring \<times> doc_data) list) =
       ([ascii ''id'' \<mapsto> JStr (ascii ''m2'')] ++ legacy_message)(ascii ''encrypted'' \<mapsto> JBool False)"
    by blast
  then have "ms = [([ascii ''id'' \<mapsto> JStr (ascii ''m2'')] ++ legacy_message)(ascii ''encrypted'' \<mapsto> JBool False)]"
    by (cases ms) simp_all
  moreover from r b have "subscribeToChatMessages box_rsa box_aes zero_seed (key32 7) ?u chat_ab
      (Some alice) ([] @ (ascii ''m2'', legacy_message) # []) = (OnError DataError, ?u)"
    by blast
  ultimately show ?thesis using 1 ms(1) by simp
qed

subsection \<open>Coalescing\<close>

lemma coalesced_initial: "coalesced initial"
  by (simp add: coalesced_def initial_def in_flight_def)

lemma coalesced_call: "coalesced s \<Longrightarrow> coalesced (snd (getChatKey_call s c))"
proof (cases "keyCachePromises s c")
  case (Some p)
  assume "coalesced s"
  then show ?thesis using Some by (simp add: getChatKey_call_def)
next
  case None
  assume inv: "coalesced s"
  let ?n = "length (promises s)"
  let ?s = "s\<lparr>promises := promises s @ [\<lparr>chat = c, result = None\<rparr>],
              keyCachePromises := (keyCachePromises s)(c \<mapsto> ?n)\<rparr>"
  have eq: "snd (getChatKey_call s c) = ?s" using None by (simp add: getChatKey_call_def Let_def)
  have J: "\<And>p d. in_flight s p d \<Longrightarrow> keyCachePromises s d = Some p"
    and K: "\<And>d p. keyCachePromises s d = Some p \<Longrightarrow> p < ?n \<and> chat (promises s ! p) = d"
    and I: "\<And>t. t \<in> set (timers s) \<Longrightarrow> \<exists>p. keyCachePromises s (snd t) = Some p \<and> result (promises s ! p) \<noteq> None"
    and D: "distinct (map snd (timers s))"
    using inv unfolding coalesced_def by blast+
  have 1: "keyCachePromises ?s d = Some p" if "in_flight ?s p d" for p d
  proof (cases "p = ?n")
    case True
    then show ?thesis using that by (simp add: in_flight_def)
  next
    case False
    then have f: "in_flight s p d" using that by (auto simp: in_flight_def nth_append)
    then have "keyCachePromises s d = Some p" by (rule J)
    then show ?thesis using None by auto
  qed
  have 2: "p < length (promises ?s) \<and> chat (promises ?s ! p) = d" if "keyCachePromises ?s d = Some p" for d p
  proof (cases "d = c")
    case True
    then show ?thesis using that by auto
  next
    case False
    then have "keyCachePromises s d = Some p" using that by simp
    then have "p < ?n \<and> chat (promises s ! p) = d" by (rule K)
    then show ?thesis by (simp add: nth_append)
  qed
  have 3: "\<exists>p. keyCachePromises ?s (snd t) = Some p \<and> result (promises ?s ! p) \<noteq> None"
    if "t \<in> set (timers ?s)" for t
  proof -
    have t: "t \<in> set (timers s)" using that by simp
    then obtain p where p: "keyCachePromises s (snd t) = Some p" "result (promises s ! p) \<noteq> None"
      using I by blast
    then have "snd t \<noteq> c" using None by auto
    moreover have "p < ?n" using K p(1) by blast
    ultimately show ?thesis using p by (auto simp: nth_append)
  qed
  show ?thesis unfolding eq coalesced_def using 1 2 3 D by auto
qed

lemma coalesced_settle: "coalesced s \<Longrightarrow> coalesced (settle p r s)"
proof (cases "p < length (promises s) \<and> result (promises s ! p) = None")
  case False
  assume "coalesced s"
  moreover have "settle p r s = s" unfolding settle_def using False by (rule if_not_P)
  ultimately show ?thesis by simp
next
  case True
  assume inv: "coalesced s"
  let ?c = "chat (promises s ! p)"
  let ?s = "s\<lparr>promises := (promises s)[p := (promises s ! p)\<lparr>result := Some r\<rparr>],
             timers := timers s @ [(clock_ms s + 1000, ?c)]\<rparr>"
  have eq: "settle p r s = ?s" using True by (simp add: settle_def)
  have J: "\<And>q d. in_flight s q d \<Longrightarrow> keyCachePromises s d = Some q"
    and K: "\<And>d q. keyCachePromises s d = Some q \<Longrightarrow> q < length (promises s) \<and> chat (promises s ! q) = d"
    and I: "\<And>t. t \<in> set (timers s) \<Longrightarrow> \<exists>q. keyCachePromises s (snd t) = Some q \<and> result (promises s ! q) \<noteq> None"
    and D: "distinct (map snd (timers s))"
    using inv unfolding coalesced_def by blast+
  have cached: "keyCachePromises s ?c = Some p"
    using True by (intro J) (simp add: in_flight_def)
  have 1: "keyCachePromises ?s d = Some q" if "in_flight ?s q d" for q d
  proof -
    have "q \<noteq> p" using that True by (auto simp: in_flight_def)
    then have "in_flight s q d" using that by (auto simp: in_flight_def)
    then show ?thesis using J by simp
  qed
  have 2: "q < length (promises ?s) \<and> chat (promises ?s ! q) = d" if "keyCachePromises ?s d = Some q" for d q
  proof -
    have "q < length (promises s) \<and> chat (promises s ! q) = d" using that K by simp
    then show ?thesis by (cases "q = p") auto
  qed
  have 3: "\<exists>q. keyCachePromises ?s (snd t) = Some q \<and> result (promises ?s ! q) \<noteq> None"
    if "t \<in> set (timers ?s)" for t
  proof (cases "t \<in> set (timers s)")
    case True
    then obtain q where q: "keyCachePromises s (snd t) = Some q" "result (promises s ! q) \<noteq> None"
      using I by blast
    have "q < length (promises s)" using K q(1) by blast
    then show ?thesis using q by (cases "q = p") auto
  next
    case False
    then have "t = (clock_ms s + 1000, ?c)" using that by simp
    then show ?thesis using cached True by simp
  qed
  have 4: "distinct (map snd (timers ?s))"
  proof -
    have "?c \<notin> snd ` set (timers s)"
    proof
      assume "?c \<in> snd ` set (timers s)"
      then obtain t where t: "t \<in> set (timers s)" "snd t = ?c" by auto
      then obtain q where "keyCachePromises s ?c = Some q" "result (promises s ! q) \<noteq> None"
        using I by metis
      then show False using cached True by simp
    qed
    then show ?thesis using D by simp
  qed
  show ?thesis unfolding eq coalesced_def using 1 2 3 4 by auto
qed

lemma distinct_map_remove1: "distinct (map f xs) \<Longrightarrow> distinct (map f (remove1 x xs))"
proof (induction xs)
  case Nil
  then show ?case by simp
next
  case (Cons a xs)
  have "f a \<notin> f ` set (remove1 x xs)"
    using Cons.prems set_remove1_subset[of x xs] by auto
  then show ?case using Cons by auto
qed

lemma coalesced_fire: "coalesced s \<Longrightarrow> coalesced (fire t s)"
proof (cases "t \<in> set (timers s) \<and> fst t \<le> clock_ms s")
  case False
  assume "coalesced s"
  moreover have "fire t s = s" unfolding fire_def using False by (rule if_not_P)
  ultimately show ?thesis by simp
next
  case True
  assume inv: "coalesced s"
  let ?s = "s\<lparr>timers := remove1 t (timers s),
             keyCachePromises := (keyCachePromises s)(snd t := None)\<rparr>"
  have eq: "fire t s = ?s" using True by (simp add: fire_def)
  have J: "\<And>q d. in_flight s q d \<Longrightarrow> keyCachePromises s d = Some q"
    and K: "\<And>d q. keyCachePromises s d = Some q \<Longrightarrow> q < length (promises s) \<and> chat (promises s ! q) = d"
    and I: "\<And>u. u \<in> set (timers s) \<Longrightarrow> \<exists>q. keyCachePromises s (snd u) = Some q \<and> result (promises s ! q) \<noteq> None"
    and D: "distinct (map snd (timers s))"
    using inv unfolding coalesced_def by blast+
  obtain p where p: "keyCachePromises s (snd t) = Some p" "result (promises s ! p) \<noteq> None"
    using I True by blast
  have 1: "keyCachePromises ?s d = Some q" if "in_flight ?s q d" for q d
  proof -
    have f: "in_flight s q d" using that by (simp add: in_flight_def)
    then have c: "keyCachePromises s d = Some q" by (rule J)
    have "d \<noteq> snd t"
    proof
      assume "d = snd t"
      then have "q = p" using c p by simp
      then show False using f p by (simp add: in_flight_def)
    qed
    then show ?thesis using c by simp
  qed
  have 2: "q < length (promises ?s) \<and> chat (promises ?s ! q) = d" if "keyCachePromises ?s d = Some q" for d q
  proof -
    have "keyCachePromises s d = Some q" using that by (cases "d = snd t") auto
    then show ?thesis using K by simp
  qed
  have dd: "distinct (timers s)" using D by (rule distinct_map[THEN iffD1, THEN conjunct1])
  have 3: "\<exists>q. keyCachePromises ?s (snd u) = Some q \<and> result (promises ?s ! q) \<noteq> None"
    if "u \<in> set (timers ?s)" for u
  proof -
    have u: "u \<in> set (timers s)" "u \<noteq> t" using that dd by auto
    then have "snd u \<noteq> snd t"
      using D True by (metis distinct_map inj_onD)
    then show ?thesis using I[OF u(1)] by simp
  qed
  have 4: "distinct (map snd (timers ?s))"
    using D by (simp add: distinct_map_remove1)
  show ?thesis unfolding eq coalesced_def using 1 2 3 4 by auto
qed

lemma coalesced_tick: "coalesced s \<Longrightarrow> coalesced (tick d s)"
  by (simp add: coalesced_def tick_def in_flight_def)

lemma coalesced_step: "coalesced s \<Longrightarrow> coalesced (step e s)"
  by (cases e) (simp_all add: coalesced_call coalesced_settle coalesced_fire coalesced_tick)

lemma coalesced_run: "coalesced s \<Longrightarrow> coalesced (run es s)"
  by (induction es arbitrary: s) (simp_all add: coalesced_step)

lemma step_promises:
  assumes "p < length (promises s)"
  shows "p < length (promises (step e s)) \<and>
         chat (promises (step e s) ! p) = chat (promises s ! p) \<and>
         (result (promises s ! p) \<noteq> None \<longrightarrow>
            result (promises (step e s) ! p) = result (promises s ! p))"
proof (cases e)
  case (Call c)
  then show ?thesis using assms
    by (auto simp: getChatKey_call_def Let_def nth_append split: option.splits)
next
  case (Settle q r)
  then show ?thesis using assms by (cases "q = p") (auto simp: settle_def)
next
  case (Fire due c)
  then show ?thesis using assms by (simp add: fire_def)
next
  case (Tick d)
  then show ?thesis using assms by (simp add: tick_def)
qed

lemma run_promises:
  "p < length (promises s) \<Longrightarrow>
   p < length (promises (run es s)) \<and>
   chat (promises (run es s) ! p) = chat (promises s ! p) \<and>
   (result (promises s ! p) \<noteq> None \<longrightarrow>
      result (promises (run es s) ! p) = result (promises s ! p))"
proof (induction es arbitrary: s)
  case Nil
  then show ?case by simp
next
  case (Cons e es)
  note st = step_promises[OF Cons.prems, of e]
  then have "p < length (promises (step e s))" by blast
  note ih = Cons.IH[OF this]
  show ?case using st ih by auto
qed

lemma in_flight_call:
  "coalesced s \<Longrightarrow> in_flight s p c \<Longrightarrow> getChatKey_call s c = (p, s)"
  by (simp add: coalesced_def getChatKey_call_def)

text \<open>
  Claim C4.  In any state the client can reach, let a first call of \<open>getChatKey\<close> for a
  chat with no entry in the map return the promise \<open>p1\<close>: it is a new resolution, in
  flight.  After any further steps, as long as \<open>p1\<close> has not settled, a call for the
  same chat returns \<open>p1\<close> and leaves the state as it is: no second resolution starts,
  and both callers hold the one promise.  When it settles with \<open>r\<close>, that is its result
  for good, the entry stays in the map with a timer due 1000 ms later, and when the
  timer fires the entry is removed.
\<close>

theorem concurrent_calls_coalesce:
  assumes "s0 = run evs0 initial"
    and "keyCachePromises s0 c = None"
    and "getChatKey_call s0 c = (p1, s1)"
    and "s2 = run evs s1"
    and "result (promises s2 ! p1) = None"
  shows "p1 = length (promises s0) \<and> in_flight s1 p1 c \<and>
         getChatKey_call s2 c = (p1, s2) \<and>
         (\<forall>r. result (promises (settle p1 r s2) ! p1) = Some r \<and>
              (clock_ms s2 + 1000, c) \<in> set (timers (settle p1 r s2)) \<and>
              getChatKey_call (settle p1 r s2) c = (p1, settle p1 r s2) \<and>
              (\<forall>es. result (promises (run es (settle p1 r s2)) ! p1) = Some r) \<and>
              (\<forall>d. 1000 \<le> d \<longrightarrow>
                 keyCachePromises (fire (clock_ms s2 + 1000, c) (tick d (settle p1 r s2))) c = None))"
proof -
  have inv0: "coalesced s0" unfolding assms(1) using coalesced_initial by (rule coalesced_run)
  have s1: "p1 = length (promises s0)"
    "s1 = s0\<lparr>promises := promises s0 @ [\<lparr>chat = c, result = None\<rparr>],
              keyCachePromises := (keyCachePromises s0)(c \<mapsto> length (promises s0))\<rparr>"
    using assms(2,3) by (auto simp: getChatKey_call_def Let_def)
  have f1: "in_flight s1 p1 c" by (simp add: s1 in_flight_def)
  have "s1 = snd (getChatKey_call s0 c)" using assms(3) by simp
  then have inv1: "coalesced s1" using inv0 coalesced_call by simp
  have inv2: "coalesced s2" unfolding assms(4) using inv1 by (rule coalesced_run)
  have p1: "p1 < length (promises s1)" using f1 by (simp add: in_flight_def)
  have mono: "p1 < length (promises s2)" "chat (promises s2 ! p1) = c"
    using run_promises[OF p1, of evs] f1 unfolding assms(4) by (simp_all add: in_flight_def)
  have f2: "in_flight s2 p1 c" using mono assms(5) by (simp add: in_flight_def)
  have call2: "getChatKey_call s2 c = (p1, s2)" using inv2 f2 by (rule in_flight_call)
  have cached: "keyCachePromises s2 c = Some p1" using inv2 f2 by (simp add: coalesced_def)
  have after: "result (promises (settle p1 r s2) ! p1) = Some r \<and>
              (clock_ms s2 + 1000, c) \<in> set (timers (settle p1 r s2)) \<and>
              getChatKey_call (settle p1 r s2) c = (p1, settle p1 r s2) \<and>
              (\<forall>es. result (promises (run es (settle p1 r s2)) ! p1) = Some r) \<and>
              (\<forall>d. 1000 \<le> d \<longrightarrow>
                 keyCachePromises (fire (clock_ms s2 + 1000, c) (tick d (settle p1 r s2))) c = None)" for r
  proof -
    let ?s3 = "settle p1 r s2"
    have s3: "?s3 = s2\<lparr>promises := (promises s2)[p1 := (promises s2 ! p1)\<lparr>result := Some r\<rparr>],
             timers := timers s2 @ [(clock_ms s2 + 1000, c)]\<rparr>"
      using mono assms(5) by (simp add: settle_def)
    have a: "result (promises ?s3 ! p1) = Some r" using mono by (simp add: s3)
    have b: "(clock_ms s2 + 1000, c) \<in> set (timers ?s3)" by (simp add: s3)
    have c3: "getChatKey_call ?s3 c = (p1, ?s3)"
      using cached by (simp add: getChatKey_call_def s3)
    have l3: "p1 < length (promises ?s3)" using mono by (simp add: s3)
    have d: "result (promises (run es ?s3) ! p1) = Some r" for es
      using run_promises[OF l3, of es] a by simp
    have e: "keyCachePromises (fire (clock_ms s2 + 1000, c) (tick d ?s3)) c = None" if "1000 \<le> d" for d
      using that by (simp add: fire_def tick_def s3)
    show ?thesis using a b c3 d e by blast
  qed
  show ?thesis using s1(1) f1 call2 after by blast
qed

theorem concurrent_calls_coalesce_witness:
  "getChatKey_call initial chat_ab = (0, snd (getChatKey_call initial chat_ab)) \<and>
   getChatKey_call (run [Tick 5, Call (ascii ''z''), Settle 1 (Inl ChatNotFound)]
                      (snd (getChatKey_call initial chat_ab))) chat_ab
     = (0, run [Tick 5, Call (ascii ''z''), Settle 1 (Inl ChatNotFound)]
             (snd (getChatKey_call initial chat_ab))) \<and>
   keyCachePromises
     (fire (1005, chat_ab) (tick 1000 (settle 0 (Inr (AesKey (key32 7)))
        (run [Tick 5, Call (ascii ''z''), Settle 1 (Inl ChatNotFound)]
           (snd (getChatKey_call initial chat_ab)))))) chat_ab = None"
proof -
  let ?s1 = "snd (getChatKey_call initial chat_ab)"
  let ?evs = "[Tick 5, Call (ascii ''z''), Settle 1 (Inl ChatNotFound)]"
  have z: "ascii ''z'' \<noteq> chat_ab" by (simp add: chat_ab_def ascii_def)
  have h: "initial = run [] initial" "keyCachePromises initial chat_ab = None"
    "getChatKey_call initial chat_ab = (0, ?s1)" "run ?evs ?s1 = run ?evs ?s1"
    by (simp_all add: initial_def getChatKey_call_def)
  have n: "clock_ms (run ?evs ?s1) = 5" "result (promises (run ?evs ?s1) ! 0) = None"
    using z by (simp_all add: initial_def getChatKey_call_def tick_def settle_def Let_def)
  show ?thesis
    using concurrent_calls_coalesce[OF h(1) h(2) h(3) h(4)[symmetric] n(2)] n(1) h(3)
    by (auto simp del: run.simps)
qed

end
